theory Spec2Isabelle
  imports Complex_Main "HOL-Library.AList"
begin

section \<open>Python values\<close>

text \<open>
  The client works on decoded JSON and on the attrs records it builds from it. One
  datatype holds every Python value the program touches. A dictionary is an association
  list in insertion order; a record instance carries its class and its attribute values
  in declaration order.

  Strings are byte strings: the model is exact for ASCII text, which is what the API's
  keys, dates and numbers consist of. A float is represented by the rational number its
  literal denotes; the rounding to binary64 that Python applies is not part of the model
  (small integers such as win counts are exact in both).
\<close>

datatype cls =
    DriverDTO | ConstructorDTO | LocationDTO | CircuitDTO | RaceDTO | TimeDTO
  | AverageSpeedDTO | FastestLapDTO | TimingDTO | RaceResultDTO | QualifyingResultDTO
  | SprintResultDTO | DriverStandingDTO | ConstructorStandingDTO | StatusDTO | LapDTO
  | PitStopDTO | SeasonDTO

datatype pyfloat = Finite rat | PosInf | NegInf | NaN

datatype pyval =
    PNone
  | PBool bool
  | PInt int
  | PFloat pyfloat
  | PStr string
  | PDate int int int
  | PTime int int int
  | PList "pyval list"
  | PDict "(string \<times> pyval) list"
  | PObj cls "(string \<times> pyval) list"

type_synonym pydict = "(string \<times> pyval) list"

text \<open>
  \<open>PDate y m d\<close> is \<open>datetime.date(y, m, d)\<close>; \<open>PTime h m s\<close> is
  \<open>datetime.time(h, m, s, tzinfo=timezone.utc)\<close>, the only kind of time the program
  creates.
\<close>

datatype error =
    HTTPError int
  | WrongQueryParameters
  | WrongDirectory
  | TypeError
  | ValueError
  | KeyError
  | IndexError
  | OverflowError
  | AttributeError

subsection \<open>Strings\<close>

definition lower_char :: "char \<Rightarrow> char" where
  "lower_char c =
     (let n = of_char c :: int in if 65 \<le> n \<and> n \<le> 90 then char_of (n + 32) else c)"

definition upper_char :: "char \<Rightarrow> char" where
  "upper_char c =
     (let n = of_char c :: int in if 97 \<le> n \<and> n \<le> 122 then char_of (n - 32) else c)"

text \<open>\<open>str.lower()\<close>: every character lower-cased.\<close>

definition py_lower :: "string \<Rightarrow> string" where
  "py_lower s = map lower_char s"

text \<open>\<open>str.capitalize()\<close>: the first character upper-cased, all the others lower-cased.\<close>

definition py_capitalize :: "string \<Rightarrow> string" where
  "py_capitalize s = (case s of [] \<Rightarrow> [] | c # cs \<Rightarrow> upper_char c # map lower_char cs)"

text \<open>
  A character here is a byte. On the ASCII characters \<open>str.lower()\<close>, \<open>str.capitalize()\<close>
  and the digit class \<open>\d\<close> of \<open>strptime\<close> are the functions of this theory; beyond ASCII
  Python has further letters to change the case of and further decimal digits.
\<close>

definition is_ascii :: "char \<Rightarrow> bool" where
  "is_ascii c = ((of_char c :: int) < 128)"

subsection \<open>Dictionaries\<close>

text \<open>
  \<open>dict(pairs)\<close>: the pairs are inserted from left to right; a key that is already
  present keeps its position and takes the new value.
\<close>

definition py_dict :: "(string \<times> 'v) list \<Rightarrow> (string \<times> 'v) list" where
  "py_dict pairs = foldl (\<lambda>d kv. AList.update (fst kv) (snd kv) d) [] pairs"

text \<open>\<open>isinstance(v, MutableMapping)\<close>: of the values above only a dictionary is one.\<close>

fun is_mapping :: "pyval \<Rightarrow> bool" where
  "is_mapping (PDict d) = True"
| "is_mapping v = False"

section \<open>The key/value flattener (utils.py)\<close>

text \<open>
  \<open>flat_dict(d, keys=None)\<close> closes over \<open>keys\<close>; its two inner functions call each
  other. The generator \<open>_flatten_dict_gen\<close> is the list of the pairs it yields.
  \<open>if keys:\<close> is Python truthiness: \<open>None\<close> and the empty list are both false.
\<close>

fun keys_truthy :: "string list option \<Rightarrow> bool" where
  "keys_truthy None = False"
| "keys_truthy (Some ks) = (ks \<noteq> [])"

fun in_keys :: "string \<Rightarrow> string list option \<Rightarrow> bool" where
  "in_keys k None = False"
| "in_keys k (Some ks) = (k \<in> set ks)"

function flatten_dict_gen :: "string list option \<Rightarrow> pydict \<Rightarrow> string \<Rightarrow> pydict"
  and flatten_dict :: "string list option \<Rightarrow> pydict \<Rightarrow> string \<Rightarrow> pydict"
where
  "flatten_dict_gen keys [] parent_key = []"
| "flatten_dict_gen keys ((k, v) # d) parent_key =
     (let new_key = (if parent_key \<noteq> [] then py_lower parent_key @ py_capitalize k else k) in
      (if keys_truthy keys then
         (case v of
            PDict sub \<Rightarrow>
              if in_keys k keys then flatten_dict keys sub new_key else [(new_key, v)]
          | _ \<Rightarrow> [(new_key, v)])
       else
         (case v of
            PDict sub \<Rightarrow> flatten_dict keys sub new_key
          | _ \<Rightarrow> [(new_key, v)]))
      @ flatten_dict_gen keys d parent_key)"
| "flatten_dict keys d parent_key = py_dict (flatten_dict_gen keys d parent_key)"
  by pat_completeness auto
termination
  by (relation "measure (\<lambda>x. case x of
         Inl (keys, d, p) \<Rightarrow> 2 * size_list (size_prod (\<lambda>_. 0) size) d
       | Inr (keys, d, p) \<Rightarrow> 2 * size_list (size_prod (\<lambda>_. 0) size) d + 1)")
     auto

definition flat_dict :: "pydict \<Rightarrow> string list option \<Rightarrow> pydict" where
  "flat_dict d keys = flatten_dict keys d []"

text \<open>
  Whether the generator descends into the value stored under \<open>k\<close>, given that it is a
  mapping: always without a restriction list, and only for the listed keys with one.
\<close>

definition descends :: "string list option \<Rightarrow> string \<Rightarrow> bool" where
  "descends keys k = (if keys_truthy keys then in_keys k keys else True)"

text \<open>
  The synthesized key in the specification's wording: the parent key with its first
  character lower-cased, then the child key with its first character upper-cased, the
  remaining characters of both unchanged.
\<close>

definition spec_lower_first :: "string \<Rightarrow> string" where
  "spec_lower_first s = (case s of [] \<Rightarrow> [] | c # cs \<Rightarrow> lower_char c # cs)"

definition spec_upper_first :: "string \<Rightarrow> string" where
  "spec_upper_first s = (case s of [] \<Rightarrow> [] | c # cs \<Rightarrow> upper_char c # cs)"

definition spec_synthesized_key :: "string \<Rightarrow> string \<Rightarrow> string" where
  "spec_synthesized_key p c = spec_lower_first p @ spec_upper_first c"

text \<open>
  The pairs a top-level entry contributes to the generator's output: those of its
  flattened value when the generator descends into it, the entry itself otherwise.
\<close>

definition entry_pairs :: "string list option \<Rightarrow> string \<times> pyval \<Rightarrow> (string \<times> pyval) set" where
  "entry_pairs keys kv =
     (case snd kv of
        PDict sub \<Rightarrow> if descends keys (fst kv) then set (flatten_dict keys sub (fst kv)) else {kv}
      | _ \<Rightarrow> {kv})"

text \<open>A dictionary all of whose keys, at every depth, are ASCII strings.\<close>

fun ascii_keys :: "pyval \<Rightarrow> bool" where
  "ascii_keys (PDict d) = list_all (\<lambda>kv. list_all is_ascii (fst kv) \<and> ascii_keys (snd kv)) d"
| "ascii_keys v = True"

text \<open>
  The key the flattener synthesizes along a path of keys, starting from the parent key
  \<open>p\<close>: utils.py line 84, \<open>parent_key.lower() + k.capitalize() if parent_key else k\<close>,
  applied to one key of the path after the other.
\<close>

definition path_key :: "string \<Rightarrow> string list \<Rightarrow> string" where
  "path_key p path = foldl (\<lambda>q c. if q = [] then c else py_lower q @ py_capitalize c) p path"

text \<open>
  The key paths of a dictionary that lead to a value the flattener does not descend
  into, each with that value, in the order of the entries.
\<close>

function leaf_paths :: "string list option \<Rightarrow> pydict \<Rightarrow> (string list \<times> pyval) list" where
  "leaf_paths keys [] = []"
| "leaf_paths keys ((c, v) # d) =
     (case v of
        PDict sub \<Rightarrow>
          if descends keys c then map (\<lambda>pv. (c # fst pv, snd pv)) (leaf_paths keys sub)
          else [([c], v)]
      | _ \<Rightarrow> [([c], v)])
     @ leaf_paths keys d"
  by pat_completeness auto
termination
  by (relation "measure (\<lambda>x. size_list (size_prod (\<lambda>_. 0) size) (snd x))") auto

section \<open>The client facade (yukinator.py): building URLs\<close>

text \<open>
  The path segments handed to \<open>_build_url\<close> are what the getters' signatures allow:
  \<open>Union[int, str, None]\<close>.
\<close>

datatype endpoint = ENone | EInt int | EStr string

text \<open>The truth value Python gives a segment in \<open>if suffix\<close>.\<close>

fun truthy :: "endpoint \<Rightarrow> bool" where
  "truthy ENone = False"
| "truthy (EInt i) = (i \<noteq> 0)"
| "truthy (EStr s) = (s \<noteq> [])"

definition digit_char :: "int \<Rightarrow> char" where
  "digit_char n = char_of (48 + n)"

text \<open>The decimal digits of a non-negative integer.\<close>

function str_of_nat :: "int \<Rightarrow> string" where
  "str_of_nat n = (if n < 10 then [digit_char n] else str_of_nat (n div 10) @ [digit_char (n mod 10)])"
  by pat_completeness auto
termination
  by (relation "measure nat") auto

declare str_of_nat.simps [simp del]

definition str_of_int :: "int \<Rightarrow> string" where
  "str_of_int i = (if i < 0 then CHR ''-'' # str_of_nat (- i) else str_of_nat i)"

text \<open>\<open>str(suffix)\<close>. It is only applied to segments that passed the filter.\<close>

fun py_str :: "endpoint \<Rightarrow> string" where
  "py_str ENone = ''None''"
| "py_str (EInt i) = str_of_int i"
| "py_str (EStr s) = s"

text \<open>\<open>sep.join(parts)\<close>.\<close>

fun join :: "string \<Rightarrow> string list \<Rightarrow> string" where
  "join sep [] = []"
| "join sep [x] = x"
| "join sep (x # y # ys) = x @ sep @ join sep (y # ys)"

definition base_url :: string where
  "base_url = ''https://api.jolpi.ca/ergast/f1/''"

definition build_url :: "endpoint list \<Rightarrow> string" where
  "build_url endpoints =
     base_url @ join ''/'' (map py_str (filter truthy endpoints)) @ ''.json?limit=1000''"



section \<open>The typed record layer (objects.py): coercions\<close>

subsection \<open>Digits\<close>

definition is_digit :: "char \<Rightarrow> bool" where
  "is_digit c = (let n = of_char c :: int in 48 \<le> n \<and> n \<le> 57)"

definition digit_val :: "char \<Rightarrow> int" where
  "digit_val c = of_char c - 48"

definition int_of_digits :: "string \<Rightarrow> int" where
  "int_of_digits w = foldl (\<lambda>a c. 10 * a + digit_val c) 0 w"

subsection \<open>The regular expressions of \<open>strptime\<close>\<close>

text \<open>
  \<open>datetime.strptime\<close> turns the format into a regular expression, one named group per
  directive, and matches it at the start of the input with \<open>re.match\<close>: alternatives are
  tried from left to right, backtracking into later ones when the rest of the pattern
  fails. A matcher lists every way of matching a prefix, as (matched text, rest), in the
  order in which the engine tries them; the head of the list is the match \<open>re.match\<close>
  returns.
\<close>

type_synonym matcher = "string \<Rightarrow> (string \<times> string) list"

definition one :: "(char \<Rightarrow> bool) \<Rightarrow> matcher" where
  "one p s = (case s of [] \<Rightarrow> [] | c # r \<Rightarrow> if p c then [([c], r)] else [])"

definition lit :: "char \<Rightarrow> matcher" where
  "lit c = one (\<lambda>x. x = c)"

definition in_range :: "char \<Rightarrow> char \<Rightarrow> char \<Rightarrow> bool" where
  "in_range lo hi c = ((of_char lo :: int) \<le> of_char c \<and> (of_char c :: int) \<le> of_char hi)"

definition range :: "char \<Rightarrow> char \<Rightarrow> matcher" where
  "range lo hi = one (in_range lo hi)"

definition digit :: matcher where
  "digit = one is_digit"

definition seq :: "matcher \<Rightarrow> matcher \<Rightarrow> matcher" where
  "seq m1 m2 s = [(a @ b, r2). (a, r1) \<leftarrow> m1 s, (b, r2) \<leftarrow> m2 r1]"

definition alt :: "matcher \<Rightarrow> matcher \<Rightarrow> matcher" where
  "alt m1 m2 s = m1 s @ m2 s"

text \<open>\<open>%Y\<close> is \<open>\d\d\d\d\<close>.\<close>

definition re_Y :: matcher where
  "re_Y = seq digit (seq digit (seq digit digit))"

text \<open>\<open>%m\<close> is \<open>1[0-2]|0[1-9]|[1-9]\<close>.\<close>

definition re_m :: matcher where
  "re_m = alt (seq (lit CHR ''1'') (range CHR ''0'' CHR ''2''))
         (alt (seq (lit CHR ''0'') (range CHR ''1'' CHR ''9''))
              (range CHR ''1'' CHR ''9''))"

text \<open>\<open>%d\<close> is \<open>3[0-1]|[1-2]\d|0[1-9]|[1-9]| [1-9]\<close>.\<close>

definition re_d :: matcher where
  "re_d = alt (seq (lit CHR ''3'') (range CHR ''0'' CHR ''1''))
         (alt (seq (range CHR ''1'' CHR ''2'') digit)
         (alt (seq (lit CHR ''0'') (range CHR ''1'' CHR ''9''))
         (alt (range CHR ''1'' CHR ''9'')
              (seq (lit CHR '' '') (range CHR ''1'' CHR ''9'')))))"

text \<open>\<open>%H\<close> is \<open>2[0-3]|[0-1]\d|\d\<close>.\<close>

definition re_H :: matcher where
  "re_H = alt (seq (lit CHR ''2'') (range CHR ''0'' CHR ''3''))
         (alt (seq (range CHR ''0'' CHR ''1'') digit)
              digit)"

text \<open>\<open>%M\<close> is \<open>[0-5]\d|\d\<close>.\<close>

definition re_M :: matcher where
  "re_M = alt (seq (range CHR ''0'' CHR ''5'') digit) digit"

text \<open>\<open>%S\<close> is \<open>6[0-1]|[0-5]\d|\d\<close>.\<close>

definition re_S :: matcher where
  "re_S = alt (seq (lit CHR ''6'') (range CHR ''0'' CHR ''1''))
         (alt (seq (range CHR ''0'' CHR ''5'') digit)
              digit)"

text \<open>
  The format \<open>%Y-%m-%d\<close>: the groups of every way of matching, with the unmatched rest.
\<close>

definition match_Ymd :: "string \<Rightarrow> ((string \<times> string \<times> string) \<times> string) list" where
  "match_Ymd s =
     [((y, m, d), r5).
        (y, r1) \<leftarrow> re_Y s, (_, r2) \<leftarrow> lit CHR ''-'' r1,
        (m, r3) \<leftarrow> re_m r2, (_, r4) \<leftarrow> lit CHR ''-'' r3,
        (d, r5) \<leftarrow> re_d r4]"

text \<open>The format \<open>%H:%M:%S\<close>.\<close>

definition match_HMS :: "string \<Rightarrow> ((string \<times> string \<times> string) \<times> string) list" where
  "match_HMS s =
     [((h, m, sec), r5).
        (h, r1) \<leftarrow> re_H s, (_, r2) \<leftarrow> lit CHR '':'' r1,
        (m, r3) \<leftarrow> re_M r2, (_, r4) \<leftarrow> lit CHR '':'' r3,
        (sec, r5) \<leftarrow> re_S r4]"

subsection \<open>Dates and times\<close>

definition is_leap :: "int \<Rightarrow> bool" where
  "is_leap y = (y mod 4 = 0 \<and> (y mod 100 \<noteq> 0 \<or> y mod 400 = 0))"

definition days_in_month :: "int \<Rightarrow> int \<Rightarrow> int" where
  "days_in_month y m =
     (if m = 2 then (if is_leap y then 29 else 28)
      else if m \<in> {4, 6, 9, 11} then 30 else 31)"

text \<open>
  \<open>datetime.strptime(s, "%Y-%m-%d").date()\<close>. No match and unconverted data are both a
  \<open>ValueError\<close>; so is a date the calendar does not have (year \<open>0\<close>, a day past the end of
  the month). The day group may be a space and a digit; \<open>int\<close> ignores the space.
\<close>

definition strptime_Ymd :: "string \<Rightarrow> error + (int \<times> int \<times> int)" where
  "strptime_Ymd s =
     (case match_Ymd s of
        [] \<Rightarrow> Inl ValueError
      | ((y, m, d), rest) # _ \<Rightarrow>
          if rest \<noteq> [] then Inl ValueError
          else
            (let year = int_of_digits y; month = int_of_digits m;
                 day = int_of_digits (filter is_digit d)
             in if 1 \<le> year \<and> 1 \<le> month \<and> month \<le> 12 \<and> 1 \<le> day \<and> day \<le> days_in_month year month
                then Inr (year, month, day) else Inl ValueError))"

definition to_date :: "string \<Rightarrow> error + pyval" where
  "to_date f = (case strptime_Ymd f of Inl e \<Rightarrow> Inl e | Inr (y, m, d) \<Rightarrow> Inr (PDate y m d))"

text \<open>
  \<open>datetime.strptime(s, "%H:%M:%S")\<close>. The seconds group admits \<open>60\<close> and \<open>61\<close>, which the
  \<open>datetime\<close> constructor then rejects.
\<close>

definition strptime_HMS :: "string \<Rightarrow> error + (int \<times> int \<times> int)" where
  "strptime_HMS s =
     (case match_HMS s of
        [] \<Rightarrow> Inl ValueError
      | ((h, m, sec), rest) # _ \<Rightarrow>
          if rest \<noteq> [] then Inl ValueError
          else
            (let hour = int_of_digits h; minute = int_of_digits m; second = int_of_digits sec
             in if hour \<le> 23 \<and> minute \<le> 59 \<and> second \<le> 59
                then Inr (hour, minute, second) else Inl ValueError))"

text \<open>
  \<open>to_time\<close> parses \<open>f[:-1]\<close>, the string without its last character, and attaches UTC.
\<close>

definition to_time :: "string \<Rightarrow> error + pyval" where
  "to_time f =
     (case strptime_HMS (butlast f) of
        Inl e \<Rightarrow> Inl e
      | Inr (h, m, s) \<Rightarrow> Inr (PTime h m s))"

text \<open>
  A field of a time as the format admits it: one or two decimal digits whose value is at
  most \<open>mx\<close>.
\<close>

definition time_field :: "int \<Rightarrow> string \<Rightarrow> bool" where
  "time_field mx w = (w \<noteq> [] \<and> length w \<le> 2 \<and> list_all is_digit w \<and> int_of_digits w \<le> mx)"

subsection \<open>\<open>int()\<close> and \<open>float()\<close>\<close>

text \<open>
  Both accept a string with surrounding whitespace, an optional sign, and decimal digits
  in which single underscores may separate digits. \<open>float\<close> also accepts a fraction, an
  exponent and the words \<open>inf\<close>, \<open>infinity\<close> and \<open>nan\<close> in any case. The limit that recent
  interpreters put on the number of digits \<open>int\<close> converts (4300 by default) is left out.
\<close>

definition is_space :: "char \<Rightarrow> bool" where
  "is_space c = (let n = of_char c :: int in (9 \<le> n \<and> n \<le> 13) \<or> n = 32)"

definition strip :: "string \<Rightarrow> string" where
  "strip s = rev (dropWhile is_space (rev (dropWhile is_space s)))"

definition sign_prefix :: "string \<Rightarrow> int \<times> string" where
  "sign_prefix s =
     (case s of
        [] \<Rightarrow> (1, s)
      | c # r \<Rightarrow> if c = CHR ''-'' then (- 1, r) else if c = CHR ''+'' then (1, r) else (1, s))"

text \<open>
  The longest \<open>digit (["_"] digit)*\<close> at the start of a string: its value, its number of
  digits and the rest of the string.
\<close>

fun digitpart_rest :: "int \<Rightarrow> nat \<Rightarrow> string \<Rightarrow> int \<times> nat \<times> string" where
  "digitpart_rest v n [] = (v, n, [])"
| "digitpart_rest v n [c] = (if is_digit c then (10 * v + digit_val c, Suc n, []) else (v, n, [c]))"
| "digitpart_rest v n (c # d # r) =
     (if is_digit c then digitpart_rest (10 * v + digit_val c) (Suc n) (d # r)
      else if c = CHR ''_'' \<and> is_digit d then digitpart_rest (10 * v + digit_val d) (Suc n) r
      else (v, n, c # d # r))"

definition digitpart :: "string \<Rightarrow> (int \<times> nat \<times> string) option" where
  "digitpart s =
     (case s of
        [] \<Rightarrow> None
      | c # r \<Rightarrow> if is_digit c then Some (digitpart_rest (digit_val c) 1 r) else None)"

definition int_of_str :: "string \<Rightarrow> int option" where
  "int_of_str s =
     (let (sg, body) = sign_prefix (strip s)
      in case digitpart body of
           Some (v, n, []) \<Rightarrow> Some (sg * v)
         | _ \<Rightarrow> None)"

text \<open>
  A float that is too large in magnitude for binary64 is an infinity. The bound is
  \<open>2 ^ 1024 - 2 ^ 970\<close>, the least magnitude that rounds past the largest finite value.
\<close>

definition float_bound :: rat where
  "float_bound =
     179769313486231580793728971405303415079934132710037826936173778980444968292764750946649017977587207096330286416692887910946555547851940402630657488671505820681908902000708383676273854845817711531764475730270069855571366959622842914819860834936475292719074168444365510704342711559699508093042880177904174497792"

definition float_of_rat :: "rat \<Rightarrow> pyfloat" where
  "float_of_rat r =
     (if float_bound \<le> r then PosInf
      else if r \<le> - float_bound then NegInf
      else Finite r)"

definition pow10 :: "int \<Rightarrow> rat" where
  "pow10 e = (if 0 \<le> e then 10 ^ nat e else 1 / 10 ^ nat (- e))"

text \<open>\<open>[digitpart] "." digitpart | digitpart ["."]\<close> at the start of a string.\<close>

definition number_prefix :: "string \<Rightarrow> (rat \<times> string) option" where
  "number_prefix s =
     (case digitpart s of
        Some (ip, n, r1) \<Rightarrow>
          (case r1 of
             [] \<Rightarrow> Some (of_int ip, r1)
           | c # r2 \<Rightarrow>
               if c = CHR ''.'' then
                 (case digitpart r2 of
                    Some (fp, k, r3) \<Rightarrow> Some (of_int ip + of_int fp / 10 ^ k, r3)
                  | None \<Rightarrow> Some (of_int ip, r2))
               else Some (of_int ip, r1))
      | None \<Rightarrow>
          (case s of
             [] \<Rightarrow> None
           | c # r2 \<Rightarrow>
               if c = CHR ''.'' then
                 (case digitpart r2 of
                    Some (fp, k, r3) \<Rightarrow> Some (of_int fp / 10 ^ k, r3)
                  | None \<Rightarrow> None)
               else None))"

text \<open>Nothing, or \<open>("e" | "E") [sign] digitpart\<close>, up to the end of the string.\<close>

definition exponent_suffix :: "string \<Rightarrow> int option" where
  "exponent_suffix s =
     (case s of
        [] \<Rightarrow> Some 0
      | c # r \<Rightarrow>
          if c = CHR ''e'' \<or> c = CHR ''E'' then
            (let (sg, body) = sign_prefix r
             in case digitpart body of
                  Some (v, n, []) \<Rightarrow> Some (sg * v)
                | _ \<Rightarrow> None)
          else None)"

definition float_of_str :: "string \<Rightarrow> pyfloat option" where
  "float_of_str s =
     (let (sg, body) = sign_prefix (strip s); word = py_lower body
      in if word = ''inf'' \<or> word = ''infinity'' then Some (if sg < 0 then NegInf else PosInf)
         else if word = ''nan'' then Some NaN
         else
           (case number_prefix body of
              None \<Rightarrow> None
            | Some (mant, rest) \<Rightarrow>
                (case exponent_suffix rest of
                   None \<Rightarrow> None
                 | Some ex \<Rightarrow> Some (float_of_rat (of_int sg * mant * pow10 ex)))))"

text \<open>
  \<open>int(x)\<close>: a number is truncated towards zero, a string is parsed, anything else is a
  \<open>TypeError\<close>.
\<close>

fun py_int :: "pyval \<Rightarrow> error + int" where
  "py_int (PInt n) = Inr n"
| "py_int (PBool b) = Inr (if b then 1 else 0)"
| "py_int (PFloat (Finite r)) = Inr (if 0 \<le> r then \<lfloor>r\<rfloor> else \<lceil>r\<rceil>)"
| "py_int (PFloat NaN) = Inl ValueError"
| "py_int (PFloat x) = Inl OverflowError"
| "py_int (PStr s) = (case int_of_str s of Some n \<Rightarrow> Inr n | None \<Rightarrow> Inl ValueError)"
| "py_int v = Inl TypeError"

text \<open>\<open>float(x)\<close>.\<close>

fun py_float :: "pyval \<Rightarrow> error + pyfloat" where
  "py_float (PFloat x) = Inr x"
| "py_float (PInt n) =
     (case float_of_rat (of_int n) of Finite r \<Rightarrow> Inr (Finite r) | _ \<Rightarrow> Inl OverflowError)"
| "py_float (PBool b) = Inr (Finite (if b then 1 else 0))"
| "py_float (PStr s) = (case float_of_str s of Some x \<Rightarrow> Inr x | None \<Rightarrow> Inl ValueError)"
| "py_float v = Inl TypeError"

section \<open>The typed record layer (objects.py): records\<close>

text \<open>
  Every record class is an attrs class: a list of attributes in declaration order, each
  with an optional default (\<open>None\<close> wherever the source gives one) and an optional
  converter. attrs generates \<open>__init__\<close> from that list.
\<close>

datatype converter =
    NoConverter
  | Conv_int
  | Conv_float
  | Conv_to_date
  | Conv_to_time
  | Conv_dto cls
  | Conv_dto_list cls
  | Conv_optional converter

text \<open>
  \<open>Conv_dto C\<close> stands for the helpers \<open>to_driver_dto\<close>, \<open>to_constructor_dto\<close>, ...
  (\<open>C(**d)\<close>); \<open>Conv_dto_list C\<close> for \<open>to_timings_dto_list\<close> and
  \<open>to_constructors_dto_list\<close> (\<open>[C(**x) for x in ll]\<close>); \<open>Conv_optional c\<close> for
  \<open>converters.optional(c)\<close>.
\<close>

record attribute =
  attr_name :: string
  attr_default :: "pyval option"
  attr_converter :: converter

text \<open>The four ways in which the source declares an attribute.\<close>

definition plain :: "string \<Rightarrow> attribute" where
  "plain n = \<lparr>attr_name = n, attr_default = None, attr_converter = NoConverter\<rparr>"

definition plain_none :: "string \<Rightarrow> attribute" where
  "plain_none n = \<lparr>attr_name = n, attr_default = Some PNone, attr_converter = NoConverter\<rparr>"

definition field_conv :: "string \<Rightarrow> converter \<Rightarrow> attribute" where
  "field_conv n c = \<lparr>attr_name = n, attr_default = None, attr_converter = c\<rparr>"

definition field_none :: "string \<Rightarrow> converter \<Rightarrow> attribute" where
  "field_none n c = \<lparr>attr_name = n, attr_default = Some PNone, attr_converter = c\<rparr>"

fun fields_of :: "cls \<Rightarrow> attribute list" where
  "fields_of DriverDTO =
     [plain ''driverId'', plain ''url'', plain ''givenName'', plain ''familyName'',
      field_conv ''dateOfBirth'' Conv_to_date, plain ''nationality'',
      field_none ''permanentNumber'' (Conv_optional Conv_int), plain_none ''code'']"
| "fields_of ConstructorDTO =
     [plain ''constructorId'', plain ''url'', plain ''name'', plain ''nationality'']"
| "fields_of LocationDTO =
     [field_conv ''lat'' Conv_float, field_conv ''long'' Conv_float,
      plain ''locality'', plain ''country'']"
| "fields_of CircuitDTO =
     [plain ''circuitId'', plain ''url'', plain ''circuitName'',
      field_conv ''Location'' (Conv_dto LocationDTO)]"
| "fields_of RaceDTO =
     [field_conv ''season'' Conv_int, field_conv ''round'' Conv_int, plain ''url'',
      plain ''raceName'', field_conv ''Circuit'' (Conv_dto CircuitDTO),
      field_conv ''date'' Conv_to_date,
      field_none ''time'' (Conv_optional Conv_to_time),
      field_none ''firstpracticeDate'' (Conv_optional Conv_to_date),
      field_none ''firstpracticeTime'' (Conv_optional Conv_to_time),
      field_none ''secondpracticeDate'' (Conv_optional Conv_to_date),
      field_none ''secondpracticeTime'' (Conv_optional Conv_to_time),
      field_none ''thirdpracticeDate'' (Conv_optional Conv_to_date),
      field_none ''thirdpracticeTime'' (Conv_optional Conv_to_time),
      field_none ''qualifyingDate'' (Conv_optional Conv_to_date),
      field_none ''qualifyingTime'' (Conv_optional Conv_to_time),
      field_none ''sprintDate'' (Conv_optional Conv_to_date),
      field_none ''sprintTime'' (Conv_optional Conv_to_time)]"
| "fields_of TimeDTO =
     [field_none ''millis'' (Conv_optional Conv_int), plain_none ''time'']"
| "fields_of AverageSpeedDTO =
     [plain_none ''units'', field_none ''speed'' (Conv_optional Conv_float)]"
| "fields_of FastestLapDTO =
     [field_none ''rank'' (Conv_optional Conv_int), field_none ''lap'' (Conv_optional Conv_int),
      field_none ''Time'' (Conv_optional (Conv_dto TimeDTO)),
      field_none ''AverageSpeed'' (Conv_optional (Conv_dto AverageSpeedDTO))]"
| "fields_of TimingDTO =
     [plain ''driverId'', field_conv ''position'' Conv_int, plain ''time'']"
| "fields_of RaceResultDTO =
     [field_conv ''Driver'' (Conv_dto DriverDTO), field_conv ''number'' Conv_int,
      field_conv ''Constructor'' (Conv_dto ConstructorDTO), field_conv ''position'' Conv_int,
      plain ''positionText'', field_conv ''points'' Conv_float, field_conv ''grid'' Conv_int,
      field_conv ''laps'' Conv_int, plain ''status'',
      field_none ''Time'' (Conv_optional (Conv_dto TimeDTO)),
      field_none ''FastestLap'' (Conv_optional (Conv_dto FastestLapDTO))]"
| "fields_of QualifyingResultDTO =
     [field_conv ''Driver'' (Conv_dto DriverDTO), field_conv ''number'' Conv_int,
      field_conv ''position'' Conv_int, field_conv ''Constructor'' (Conv_dto ConstructorDTO),
      plain_none ''Q1'', plain_none ''Q2'', plain_none ''Q3'']"
| "fields_of SprintResultDTO =
     [field_conv ''number'' Conv_int, field_conv ''Driver'' (Conv_dto DriverDTO),
      field_conv ''Constructor'' (Conv_dto ConstructorDTO), field_conv ''position'' Conv_int,
      plain ''positionText'', field_conv ''points'' Conv_float, field_conv ''grid'' Conv_int,
      field_conv ''laps'' Conv_int, plain ''status'',
      field_none ''Time'' (Conv_optional (Conv_dto TimeDTO)),
      field_none ''FastestLap'' (Conv_optional (Conv_dto FastestLapDTO))]"
| "fields_of DriverStandingDTO =
     [field_conv ''Driver'' (Conv_dto DriverDTO), field_conv ''position'' Conv_int,
      plain ''positionText'', field_conv ''points'' Conv_float,
      field_conv ''wins'' Conv_float,
      field_conv ''Constructors'' (Conv_dto_list ConstructorDTO)]"
| "fields_of ConstructorStandingDTO =
     [field_conv ''Constructor'' (Conv_dto ConstructorDTO), field_conv ''position'' Conv_int,
      plain ''positionText'', field_conv ''points'' Conv_float,
      field_conv ''wins'' Conv_int]"
| "fields_of StatusDTO =
     [field_conv ''statusId'' Conv_int, plain ''status'', field_conv ''count'' Conv_int]"
| "fields_of LapDTO =
     [field_conv ''number'' Conv_int, field_conv ''Timings'' (Conv_dto_list TimingDTO)]"
| "fields_of PitStopDTO =
     [plain ''driverId'', field_conv ''lap'' Conv_int, field_conv ''stop'' Conv_int,
      plain ''time'', field_conv ''duration'' Conv_float]"
| "fields_of SeasonDTO =
     [field_conv ''season'' Conv_int, plain ''url'']"

text \<open>
  Binding the keyword arguments of \<open>C(**kwargs)\<close>: every key must name an attribute and
  every attribute without a default must be given; otherwise the call is a \<open>TypeError\<close>
  before any converter runs.
\<close>

definition binds :: "cls \<Rightarrow> pydict \<Rightarrow> bool" where
  "binds c kwargs =
     (list_all (\<lambda>k. k \<in> set (map attr_name (fields_of c))) (map fst kwargs)
      \<and> list_all (\<lambda>a. attr_default a = None \<longrightarrow> attr_name a \<in> set (map fst kwargs)) (fields_of c))"

text \<open>The value an attribute starts from: the argument, or the default.\<close>

definition argument :: "attribute \<Rightarrow> pydict \<Rightarrow> pyval" where
  "argument a kwargs =
     (case map_of kwargs (attr_name a) of
        Some v \<Rightarrow> v
      | None \<Rightarrow> (case attr_default a of Some d \<Rightarrow> d | None \<Rightarrow> PNone))"

text \<open>Results in order, up to the first exception.\<close>

fun collect :: "(error + 'a) list \<Rightarrow> error + 'a list" where
  "collect [] = Inr []"
| "collect (Inl e # rs) = Inl e"
| "collect (Inr x # rs) = (case collect rs of Inl e \<Rightarrow> Inl e | Inr xs \<Rightarrow> Inr (x # xs))"

lemma fields_default: "a \<in> set (fields_of c) \<Longrightarrow> attr_default a = None \<or> attr_default a = Some PNone"
  by (cases c) (auto simp: plain_def plain_none_def field_conv_def field_none_def)

lemma map_of_size:
  "map_of kwargs k = Some v \<Longrightarrow> size v < Suc (size_list (size_prod (\<lambda>_. 0) size) kwargs)"
  by (induction kwargs) (auto split: if_splits)

lemma argument_size:
  "a \<in> set (fields_of c) \<Longrightarrow> size (argument a kwargs) < size (PDict kwargs)"
  using fields_default [of a c] map_of_size [of kwargs "attr_name a"]
  by (auto simp: argument_def split: option.splits)

lemma element_size: "x \<in> set xs \<Longrightarrow> size x < size (PList xs)"
  by (induction xs) auto

text \<open>
  Applying a converter to a raw value. For \<open>Conv_dto C\<close> this is the generated
  \<open>__init__\<close> of \<open>C\<close>: the converters run attribute by attribute in declaration order,
  the first exception leaves the call, and only when all have returned is there an
  instance. The date and time helpers hand their argument to \<open>strptime\<close>, which refuses
  anything but a string (before that, \<open>to_time\<close> slices it, which only sequences allow);
  the model calls every such refusal a \<open>TypeError\<close>.
\<close>

function convert :: "converter \<Rightarrow> pyval \<Rightarrow> error + pyval" where
  "convert NoConverter v = Inr v"
| "convert Conv_int v = (case py_int v of Inl e \<Rightarrow> Inl e | Inr n \<Rightarrow> Inr (PInt n))"
| "convert Conv_float v = (case py_float v of Inl e \<Rightarrow> Inl e | Inr x \<Rightarrow> Inr (PFloat x))"
| "convert Conv_to_date v = (case v of PStr s \<Rightarrow> to_date s | _ \<Rightarrow> Inl TypeError)"
| "convert Conv_to_time v = (case v of PStr s \<Rightarrow> to_time s | _ \<Rightarrow> Inl TypeError)"
| "convert (Conv_optional c) v = (if v = PNone then Inr PNone else convert c v)"
| "convert (Conv_dto c) v =
     (case v of
        PDict kwargs \<Rightarrow>
          if \<not> binds c kwargs then Inl TypeError
          else
            (case collect (map (\<lambda>a. convert (attr_converter a) (argument a kwargs)) (fields_of c)) of
               Inl e \<Rightarrow> Inl e
             | Inr vs \<Rightarrow> Inr (PObj c (zip (map attr_name (fields_of c)) vs)))
      | _ \<Rightarrow> Inl TypeError)"
| "convert (Conv_dto_list c) v =
     (case v of
        PList xs \<Rightarrow>
          (case collect (map (convert (Conv_dto c)) xs) of
             Inl e \<Rightarrow> Inl e
           | Inr rs \<Rightarrow> Inr (PList rs))
      | PStr s \<Rightarrow> if s = [] then Inr (PList []) else Inl TypeError
      | PDict d \<Rightarrow> if d = [] then Inr (PList []) else Inl TypeError
      | _ \<Rightarrow> Inl TypeError)"
  by pat_completeness auto
termination
proof (relation "measures [\<lambda>p. size (snd p), \<lambda>p. size (fst p)]")
  show "wf (measures [\<lambda>p. size (snd p), \<lambda>p. size (fst p :: converter)])"
    by simp
next
  fix c :: converter and v :: pyval
  show "((c, v), Conv_optional c, v) \<in> measures [\<lambda>p. size (snd p), \<lambda>p. size (fst p)]"
    by simp
next
  fix c v kwargs a
  assume "v = PDict kwargs" and "a \<in> set (fields_of c)"
  then show "((attr_converter a, argument a kwargs), Conv_dto c, v)
        \<in> measures [\<lambda>p. size (snd p), \<lambda>p. size (fst p)]"
    using argument_size [of a c kwargs] by simp
next
  fix c v xs x
  assume "v = PList xs" and "x \<in> set xs"
  then show "((Conv_dto c, x), Conv_dto_list c, v)
        \<in> measures [\<lambda>p. size (snd p), \<lambda>p. size (fst p)]"
    using element_size [of x xs] by simp
qed

text \<open>\<open>C(**x)\<close>.\<close>

definition new :: "cls \<Rightarrow> pyval \<Rightarrow> error + pyval" where
  "new c x = convert (Conv_dto c) x"

text \<open>Reading an attribute of an instance.\<close>

fun getattr :: "pyval \<Rightarrow> string \<Rightarrow> pyval option" where
  "getattr (PObj c attrs) n = map_of attrs n"
| "getattr v n = None"

text \<open>
  \<open>attrs.asdict\<close>: an instance becomes the dictionary of its attributes, and instances
  inside attributes, lists and dictionaries are converted in turn.
\<close>

fun asdict_value :: "pyval \<Rightarrow> pyval" where
  "asdict_value (PObj c attrs) = PDict (map (\<lambda>kv. (fst kv, asdict_value (snd kv))) attrs)"
| "asdict_value (PList xs) = PList (map asdict_value xs)"
| "asdict_value (PDict d) = PDict (map (\<lambda>kv. (fst kv, asdict_value (snd kv))) d)"
| "asdict_value v = v"

text \<open>
  The conversion methods of \<open>DTO\<close>. Only instances have them; on any other value the
  model returns the empty dictionary.
\<close>

fun to_dict :: "pyval \<Rightarrow> pydict" where
  "to_dict (PObj c attrs) = map (\<lambda>kv. (fst kv, asdict_value (snd kv))) attrs"
| "to_dict v = []"

definition to_flat_dict :: "pyval \<Rightarrow> pydict" where
  "to_flat_dict self = flat_dict (to_dict self) None"

section \<open>The client facade (yukinator.py): requests and getters\<close>

text \<open>
  The HTTP transport and the cache are external. A response is what the client looks at:
  its status code and what \<open>response.json()\<close> returns or raises. The two ways of
  fetching a URL are parameters of the model.
\<close>

record response =
  status_code :: int
  json :: "error + pyval"

record transport =
  cache_get :: "string \<Rightarrow> error + response"
  requests_get :: "string \<Rightarrow> (string \<times> string) list \<Rightarrow> error + response"

record yuki =
  headers :: "(string \<times> string) list"
  cache_enabled :: bool

text \<open>\<open>response.ok\<close> and \<open>response.raise_for_status()\<close> of the requests library.\<close>

definition ok :: "response \<Rightarrow> bool" where
  "ok r = (\<not> (400 \<le> status_code r \<and> status_code r < 600))"

definition raise_for_status :: "response \<Rightarrow> error + unit" where
  "raise_for_status r =
     (if 400 \<le> status_code r \<and> status_code r < 600 then Inl (HTTPError (status_code r))
      else Inr ())"

text \<open>Sequencing: the first exception leaves the function.\<close>

definition bind :: "error + 'a \<Rightarrow> ('a \<Rightarrow> error + 'b) \<Rightarrow> error + 'b" where
  "bind m f = (case m of Inl e \<Rightarrow> Inl e | Inr x \<Rightarrow> f x)"

text \<open>\<open>obj[key]\<close> with a string key.\<close>

fun getitem :: "pyval \<Rightarrow> string \<Rightarrow> error + pyval" where
  "getitem (PDict d) k = (case map_of d k of Some v \<Rightarrow> Inr v | None \<Rightarrow> Inl KeyError)"
| "getitem v k = Inl TypeError"

text \<open>\<open>obj[0]\<close>.\<close>

fun getitem0 :: "pyval \<Rightarrow> error + pyval" where
  "getitem0 (PList []) = Inl IndexError"
| "getitem0 (PList (x # xs)) = Inr x"
| "getitem0 (PStr []) = Inl IndexError"
| "getitem0 (PStr (c # cs)) = Inr (PStr [c])"
| "getitem0 (PDict d) = Inl KeyError"
| "getitem0 v = Inl TypeError"

text \<open>The elements a \<open>for\<close> loop or a comprehension draws from a value.\<close>

fun iterate :: "pyval \<Rightarrow> error + pyval list" where
  "iterate (PList xs) = Inr xs"
| "iterate (PDict d) = Inr (map (\<lambda>kv. PStr (fst kv)) d)"
| "iterate (PStr s) = Inr (map (\<lambda>c. PStr [c]) s)"
| "iterate v = Inl TypeError"

text \<open>\<open>[C(**x) for x in response]\<close>.\<close>

definition new_each :: "cls \<Rightarrow> pyval \<Rightarrow> error + pyval list" where
  "new_each c response = bind (iterate response) (\<lambda>xs. collect (map (new c) xs))"

text \<open>
  \<open>_make_request\<close>. Both branches check the status and decode the body in the same way;
  then the envelope's \<open>total\<close> decides.
\<close>

definition make_request :: "transport \<Rightarrow> yuki \<Rightarrow> string \<Rightarrow> error + pyval" where
  "make_request net self url =
     bind
       (if cache_enabled self then
          bind (cache_get net url) (\<lambda>response.
          bind (if \<not> ok response then raise_for_status response else Inr ()) (\<lambda>_.
          json response))
        else
          bind (requests_get net url (headers self)) (\<lambda>response.
          bind (if \<not> ok response then raise_for_status response else Inr ()) (\<lambda>_.
          json response)))
       (\<lambda>result.
          bind (getitem result ''MRData'') (\<lambda>mrdata.
          bind (getitem mrdata ''total'') (\<lambda>total.
          bind (py_int total) (\<lambda>n.
          if n \<le> 0 then Inl WrongQueryParameters else Inr result))))"

definition get_drivers :: "transport \<Rightarrow> yuki \<Rightarrow> endpoint \<Rightarrow> endpoint \<Rightarrow> error + pyval list" where
  "get_drivers net self year race =
     (let url = build_url [year, race, EStr ''drivers''] in
      bind (make_request net self url) (\<lambda>response.
      bind (getitem response ''MRData'') (\<lambda>r1.
      bind (getitem r1 ''DriverTable'') (\<lambda>r2.
      bind (getitem r2 ''Drivers'') (\<lambda>response.
      new_each DriverDTO response)))))"

text \<open>The restriction list \<open>get_races\<close> hands to the flattener.\<close>

definition race_keys :: "string list" where
  "race_keys = [''FirstPractice'', ''SecondPractice'', ''ThirdPractice'', ''Qualifying'', ''Sprint'']"

text \<open>
  \<open>RaceDTO(**flat_dict(x, [...]))\<close>. The flattener calls \<open>x.items()\<close>, which only a
  dictionary has.
\<close>

definition new_race :: "pyval \<Rightarrow> error + pyval" where
  "new_race x =
     (case x of
        PDict d \<Rightarrow> new RaceDTO (PDict (flat_dict d (Some race_keys)))
      | _ \<Rightarrow> Inl AttributeError)"

definition get_races :: "transport \<Rightarrow> yuki \<Rightarrow> endpoint \<Rightarrow> endpoint \<Rightarrow> error + pyval list" where
  "get_races net self year race =
     (let url = build_url [year, race] in
      bind (make_request net self url) (\<lambda>response.
      bind (getitem response ''MRData'') (\<lambda>r1.
      bind (getitem r1 ''RaceTable'') (\<lambda>r2.
      bind (getitem r2 ''Races'') (\<lambda>response.
      bind (iterate response) (\<lambda>xs. collect (map new_race xs)))))))"

text \<open>
  The standings getters. The first statement binds \<open>url\<close> only when \<open>winners\<close> is set; the
  second statement binds it again whatever \<open>winners\<close> is. The URL that is requested is a
  function of its own, so that it can be observed.
\<close>

definition drivers_standings_url :: "endpoint \<Rightarrow> endpoint \<Rightarrow> bool \<Rightarrow> string" where
  "drivers_standings_url year race winners =
     (let url = (if winners then Some (build_url [EStr ''driverStandings'', EStr ''1'']) else None);
          url = build_url [year, race, EStr ''driverStandings'']
      in url)"

definition get_drivers_standings ::
  "transport \<Rightarrow> yuki \<Rightarrow> endpoint \<Rightarrow> endpoint \<Rightarrow> bool \<Rightarrow> error + pyval list" where
  "get_drivers_standings net self year race winners =
     (let url = drivers_standings_url year race winners in
      bind (make_request net self url) (\<lambda>response.
      bind (getitem response ''MRData'') (\<lambda>r1.
      bind (getitem r1 ''StandingsTable'') (\<lambda>r2.
      bind (getitem r2 ''StandingsLists'') (\<lambda>r3.
      bind (getitem0 r3) (\<lambda>r4.
      bind (getitem r4 ''DriverStandings'') (\<lambda>response.
      new_each DriverStandingDTO response)))))))"

definition constructors_standings_url :: "endpoint \<Rightarrow> endpoint \<Rightarrow> bool \<Rightarrow> string" where
  "constructors_standings_url year race winners =
     (let url = (if winners then Some (build_url [EStr ''constructorStandings'', EStr ''1'']) else None);
          url = build_url [year, race, EStr ''constructorStandings'']
      in url)"

definition get_constructors_standings ::
  "transport \<Rightarrow> yuki \<Rightarrow> endpoint \<Rightarrow> endpoint \<Rightarrow> bool \<Rightarrow> error + pyval list" where
  "get_constructors_standings net self year race winners =
     (let url = constructors_standings_url year race winners in
      bind (make_request net self url) (\<lambda>response.
      bind (getitem response ''MRData'') (\<lambda>r1.
      bind (getitem r1 ''StandingsTable'') (\<lambda>r2.
      bind (getitem r2 ''StandingsLists'') (\<lambda>r3.
      bind (getitem0 r3) (\<lambda>r4.
      bind (getitem r4 ''ConstructorStandings'') (\<lambda>response.
      new_each ConstructorStandingDTO response)))))))"

section \<open>Example payloads\<close>

text \<open>Items as the API returns them, used to exercise the theorems below.\<close>

definition example_driver :: pyval where
  "example_driver = PDict
     [(''driverId'', PStr ''max_verstappen''), (''permanentNumber'', PStr ''33''), (''code'', PStr ''VER''),
      (''url'', PStr ''http://en.wikipedia.org/wiki/Max_Verstappen''), (''givenName'', PStr ''Max''),
      (''familyName'', PStr ''Verstappen''), (''dateOfBirth'', PStr ''1997-09-30''),
      (''nationality'', PStr ''Dutch'')]"

definition example_constructor :: pyval where
  "example_constructor = PDict
     [(''constructorId'', PStr ''red_bull''), (''url'', PStr ''http://en.wikipedia.org/wiki/Red_Bull_Racing''),
      (''name'', PStr ''Red Bull''), (''nationality'', PStr ''Austrian'')]"

definition example_driver_standing :: pydict where
  "example_driver_standing =
     [(''position'', PStr ''1''), (''positionText'', PStr ''1''), (''points'', PStr ''110''),
      (''wins'', PStr ''5''), (''Driver'', example_driver), (''Constructors'', PList [example_constructor])]"

definition example_constructor_standing :: pydict where
  "example_constructor_standing =
     [(''position'', PStr ''1''), (''positionText'', PStr ''1''), (''points'', PStr ''195''),
      (''wins'', PStr ''5''), (''Constructor'', example_constructor)]"

definition example_alonso :: pyval where
  "example_alonso = PDict
     [(''driverId'', PStr ''alonso''), (''permanentNumber'', PStr ''14''), (''code'', PStr ''ALO''),
      (''url'', PStr ''http://en.wikipedia.org/wiki/Fernando_Alonso''), (''givenName'', PStr ''Fernando''),
      (''familyName'', PStr ''Alonso''), (''dateOfBirth'', PStr ''1981-07-29''),
      (''nationality'', PStr ''Spanish'')]"

text \<open>A drivers envelope with the given \<open>total\<close> and items.\<close>

definition example_envelope :: "string \<Rightarrow> pyval list \<Rightarrow> pyval" where
  "example_envelope tot items = PDict
     [(''MRData'', PDict
        [(''series'', PStr ''f1''), (''limit'', PStr ''1000''), (''offset'', PStr ''0''),
         (''total'', PStr tot),
         (''DriverTable'', PDict [(''season'', PStr ''2022''), (''Drivers'', PList items)])])]"

text \<open>A transport that answers every request with status 200 and the given body.\<close>

definition example_transport :: "pyval \<Rightarrow> transport" where
  "example_transport body =
     \<lparr>cache_get = (\<lambda>url. Inr \<lparr>status_code = 200, json = Inr body\<rparr>),
      requests_get = (\<lambda>url hs. Inr \<lparr>status_code = 200, json = Inr body\<rparr>)\<rparr>"

definition example_client :: yuki where
  "example_client = \<lparr>headers = [(''User-Agent'', ''Yukinator'')], cache_enabled = False\<rparr>"

definition example_race_item :: pydict where
  "example_race_item =
     [(''season'', PStr ''2022''), (''round'', PStr ''4''),
      (''url'', PStr ''http://en.wikipedia.org/wiki/2022_Emilia_Romagna_Grand_Prix''),
      (''raceName'', PStr ''Emilia Romagna Grand Prix''),
      (''Circuit'', PDict
         [(''circuitId'', PStr ''imola''),
          (''url'', PStr ''http://en.wikipedia.org/wiki/Autodromo_Enzo_e_Dino_Ferrari''),
          (''circuitName'', PStr ''Autodromo Enzo e Dino Ferrari''),
          (''Location'', PDict
             [(''lat'', PStr ''44.3439''), (''long'', PStr ''11.7167''),
              (''locality'', PStr ''Imola''), (''country'', PStr ''Italy'')])]),
      (''date'', PStr ''2022-04-24''), (''time'', PStr ''13:00:00Z''),
      (''FirstPractice'', PDict [(''date'', PStr ''2022-04-22''), (''time'', PStr ''11:30:00Z'')]),
      (''Qualifying'', PDict [(''date'', PStr ''2022-04-22''), (''time'', PStr ''15:00:00Z'')]),
      (''SecondPractice'', PDict [(''date'', PStr ''2022-04-23''), (''time'', PStr ''10:30:00Z'')]),
      (''Sprint'', PDict [(''date'', PStr ''2022-04-23''), (''time'', PStr ''14:30:00Z'')])]"

text \<open>A races envelope with the given \<open>total\<close> and items.\<close>

definition example_races_envelope :: "string \<Rightarrow> pyval list \<Rightarrow> pyval" where
  "example_races_envelope tot items = PDict
     [(''MRData'', PDict
        [(''series'', PStr ''f1''), (''limit'', PStr ''1000''), (''offset'', PStr ''0''),
         (''total'', PStr tot),
         (''RaceTable'', PDict [(''season'', PStr ''2022''), (''round'', PStr ''4''),
                                (''Races'', PList items)])])]"

text \<open>The race item above with one more top-level entry, named as a flattened key is.\<close>

definition example_race_item_clash :: pydict where
  "example_race_item_clash = example_race_item @ [(''firstpracticeDate'', PStr ''1999-01-01'')]"


definition example_circuit :: pydict where
  "example_circuit =
     [(''Circuit'', PDict
         [(''circuitId'', PStr ''imola''),
          (''Location'', PDict [(''lat'', PStr ''44.3439''), (''long'', PStr ''11.7167'')])]),
      (''date'', PStr ''2022-04-24'')]"

section \<open>Properties of dictionaries\<close>

lemma update_fresh: "k \<notin> fst ` set al \<Longrightarrow> AList.update k v al = al @ [(k, v)]"
  by (induction al) auto

lemma update_subset: "set (AList.update k v al) \<subseteq> insert (k, v) (set al)"
  by (induction al) auto

lemma foldl_update_distinct:
  "distinct (map fst acc) \<Longrightarrow>
   distinct (map fst (foldl (\<lambda>d kv. AList.update (fst kv) (snd kv) d) acc xs))"
  by (induction xs arbitrary: acc) (auto simp: distinct_update)

lemma py_dict_distinct: "distinct (map fst (py_dict xs))"
  unfolding py_dict_def by (rule foldl_update_distinct) simp

lemma foldl_update_subset:
  "set (foldl (\<lambda>d kv. AList.update (fst kv) (snd kv) d) acc xs) \<subseteq> set acc \<union> set xs"
proof (induction xs arbitrary: acc)
  case Nil
  then show ?case by simp
next
  case (Cons x xs)
  have "set (foldl (\<lambda>d kv. AList.update (fst kv) (snd kv) d) (AList.update (fst x) (snd x) acc) xs)
      \<subseteq> set (AList.update (fst x) (snd x) acc) \<union> set xs"
    by (rule Cons.IH)
  also have "\<dots> \<subseteq> insert x (set acc) \<union> set xs"
    using update_subset [of "fst x" "snd x" acc] by auto
  finally show ?case by auto
qed

lemma py_dict_subset: "set (py_dict xs) \<subseteq> set xs"
  unfolding py_dict_def using foldl_update_subset [of "[]" xs] by simp

lemma foldl_update_append:
  "distinct (map fst (acc @ xs)) \<Longrightarrow>
   foldl (\<lambda>d kv. AList.update (fst kv) (snd kv) d) acc xs = acc @ xs"
proof (induction xs arbitrary: acc)
  case Nil
  then show ?case by simp
next
  case (Cons x xs)
  from Cons.prems have fresh: "fst x \<notin> fst ` set acc" by auto
  have step: "AList.update (fst x) (snd x) acc = acc @ [x]"
    using update_fresh [OF fresh, of "snd x"] by simp
  from Cons.prems have "distinct (map fst ((acc @ [x]) @ xs))" by simp
  then have "foldl (\<lambda>d kv. AList.update (fst kv) (snd kv) d) (acc @ [x]) xs = (acc @ [x]) @ xs"
    by (rule Cons.IH)
  then show ?case by (simp add: step)
qed

text \<open>A list of pairs with distinct keys already is the dictionary built from it.\<close>

lemma py_dict_id: "distinct (map fst xs) \<Longrightarrow> py_dict xs = xs"
  unfolding py_dict_def using foldl_update_append [of "[]" xs] by simp

lemma py_dict_idem: "py_dict (py_dict xs) = py_dict xs"
  by (rule py_dict_id) (rule py_dict_distinct)

lemma update_keys_set: "fst ` set (AList.update k v al) = insert k (fst ` set al)"
  by (induction al) auto

lemma foldl_update_keys:
  "fst ` set (foldl (\<lambda>d kv. AList.update (fst kv) (snd kv) d) acc ps)
     = fst ` set acc \<union> fst ` set ps"
proof (induction ps arbitrary: acc)
  case Nil
  then show ?case by simp
next
  case (Cons x ps)
  have "fst ` set (foldl (\<lambda>d kv. AList.update (fst kv) (snd kv) d) (AList.update (fst x) (snd x) acc) ps)
        = fst ` set (AList.update (fst x) (snd x) acc) \<union> fst ` set ps"
    by (rule Cons.IH)
  then show ?case by (simp add: update_keys_set)
qed

lemma py_dict_keys: "fst ` set (py_dict ps) = fst ` set ps"
  using foldl_update_keys [of "[]" ps] by (simp add: py_dict_def)

section \<open>Properties of the flattener\<close>

declare flatten_dict.simps [simp del]

text \<open>An unrestricted pass leaves no mapping among the values.\<close>

lemma flatten_None_values:
  "\<forall>kv \<in> set (flatten_dict_gen None d p). \<not> is_mapping (snd kv)"
  "\<forall>kv \<in> set (flatten_dict None d p). \<not> is_mapping (snd kv)"
proof (induction "None :: string list option" d p and "None :: string list option" d p
       rule: flatten_dict_gen_flatten_dict.induct)
  case (1 parent_key)
  then show ?case by simp
next
  case (2 k v d parent_key)
  show ?case
  proof (cases v)
    case (PDict sub)
    let ?nk = "if parent_key \<noteq> [] then py_lower parent_key @ py_capitalize k else k"
    have a: "\<forall>kv \<in> set (flatten_dict None sub ?nk). \<not> is_mapping (snd kv)"
      using "2.hyps"(2) [OF refl _ PDict] by simp
    have b: "\<forall>kv \<in> set (flatten_dict_gen None d parent_key). \<not> is_mapping (snd kv)"
      using "2.hyps"(3) [OF refl] .
    show ?thesis using a b PDict
      by (auto simp: Let_def)
  qed (use 2 in \<open>auto simp: Let_def\<close>)
next
  case (3 d parent_key)
  then show ?case
    using py_dict_subset [of "flatten_dict_gen None d parent_key"]
    by (auto simp: flatten_dict.simps)
qed

text \<open>At the top level, a dictionary without mapping values is yielded pair by pair.\<close>

lemma flatten_gen_flat:
  "\<forall>kv \<in> set d. \<not> is_mapping (snd kv) \<Longrightarrow> flatten_dict_gen keys d [] = d"
proof (induction d)
  case Nil
  then show ?case by simp
next
  case (Cons kv d)
  obtain k v where kv: "kv = (k, v)" by (cases kv)
  from Cons.prems kv have "\<not> is_mapping v" by simp
  moreover from Cons have "flatten_dict_gen keys d [] = d" by simp
  ultimately show ?case using kv by (cases v) simp_all
qed


text \<open>
  Claim C8. Flattening without a restriction list is idempotent: for every dictionary
  \<open>d\<close>, flattening the output of \<open>flat_dict(d)\<close> again returns that output, keys in the
  same order.
\<close>

theorem flat_dict_idempotent:
  "flat_dict (flat_dict d None) None = flat_dict d None"
proof -
  let ?out = "flatten_dict None d []"
  have "flatten_dict_gen None ?out [] = ?out"
    by (rule flatten_gen_flat) (rule flatten_None_values)
  moreover have "py_dict ?out = ?out"
    by (simp add: py_dict_idem flatten_dict.simps)
  ultimately show ?thesis
    by (simp add: flat_dict_def flatten_dict.simps [of None "flatten_dict None d []"])
qed



text \<open>A dictionary none of whose entries is descended into is yielded entry by entry.\<close>

lemma flatten_gen_one_level:
  assumes "p \<noteq> []"
    and "\<forall>kv \<in> set sub. \<not> (is_mapping (snd kv) \<and> descends keys (fst kv))"
  shows "flatten_dict_gen keys sub p =
         map (\<lambda>kv. (py_lower p @ py_capitalize (fst kv), snd kv)) sub"
  using assms(2)
proof (induction sub)
  case Nil
  then show ?case by simp
next
  case (Cons kv sub)
  obtain k v where kv: "kv = (k, v)" by (cases kv)
  from Cons.prems kv have nd: "\<not> (is_mapping v \<and> descends keys k)" by simp
  from Cons have rest: "flatten_dict_gen keys sub p =
         map (\<lambda>kv. (py_lower p @ py_capitalize (fst kv), snd kv)) sub" by simp
  show ?case using kv nd rest assms(1)
    by (cases v) (auto simp: descends_def Let_def split: if_splits)
qed

text \<open>The generator, entry by entry, and the keys and pairs of its output.\<close>

lemma flatten_gen_step:
  "flatten_dict_gen keys d p =
     concat (map (\<lambda>kv.
        let new_key = (if p = [] then fst kv
                       else map lower_char p
                            @ (case fst kv of [] \<Rightarrow> [] | x # xs \<Rightarrow> upper_char x # map lower_char xs))
        in (case snd kv of
              PDict sub \<Rightarrow>
                if descends keys (fst kv) then flatten_dict keys sub new_key
                else [(new_key, snd kv)]
            | _ \<Rightarrow> [(new_key, snd kv)])) d)"
proof (induction d)
  case Nil
  then show ?case by simp
next
  case (Cons kv d)
  obtain c v where kv: "kv = (c, v)" by (cases kv)
  show ?case
    unfolding kv
    by (cases v) (simp_all add: Cons.IH descends_def py_lower_def py_capitalize_def Let_def)
qed

lemma path_key_Cons:
  "path_key p (c # path) = path_key (if p = [] then c else py_lower p @ py_capitalize c) path"
  by (simp add: path_key_def)

lemma path_key_Nil: "path_key p [] = p"
  by (simp add: path_key_def)

lemma flatten_keys_paths:
  "fst ` set (flatten_dict_gen keys d p) = (\<lambda>pv. path_key p (fst pv)) ` set (leaf_paths keys d)"
  "fst ` set (flatten_dict keys d p) = (\<lambda>pv. path_key p (fst pv)) ` set (leaf_paths keys d)"
proof (induction keys d p and keys d p rule: flatten_dict_gen_flatten_dict.induct)
  case (1 keys parent_key)
  then show ?case by simp
next
  case (2 keys k v d parent_key)
  let ?nk = "if parent_key \<noteq> [] then py_lower parent_key @ py_capitalize k else k"
  let ?first = "if keys_truthy keys then
         (case v of PDict sub \<Rightarrow> if in_keys k keys then flatten_dict keys sub ?nk else [(?nk, v)]
          | _ \<Rightarrow> [(?nk, v)])
       else (case v of PDict sub \<Rightarrow> flatten_dict keys sub ?nk | _ \<Rightarrow> [(?nk, v)])"
  let ?paths = "case v of
        PDict sub \<Rightarrow>
          if descends keys k then map (\<lambda>pv. (k # fst pv, snd pv)) (leaf_paths keys sub)
          else [([k], v)]
      | _ \<Rightarrow> [([k], v)]"
  have nk: "path_key parent_key (k # path) = path_key ?nk path" for path
    by (simp add: path_key_Cons)
  have rest: "fst ` set (flatten_dict_gen keys d parent_key)
      = (\<lambda>pv. path_key parent_key (fst pv)) ` set (leaf_paths keys d)"
    using "2.IH"(3) [OF refl] .
  have sub1: "fst ` set (flatten_dict keys sub ?nk)
      = (\<lambda>pv. path_key ?nk (fst pv)) ` set (leaf_paths keys sub)"
    if "keys_truthy keys" "v = PDict sub" "in_keys k keys" for sub
    using "2.IH"(1) [OF refl that] .
  have sub2: "fst ` set (flatten_dict keys sub ?nk)
      = (\<lambda>pv. path_key ?nk (fst pv)) ` set (leaf_paths keys sub)"
    if "\<not> keys_truthy keys" "v = PDict sub" for sub
    using "2.IH"(2) [OF refl that] .
  have single: "fst ` set [(?nk, v)] = (\<lambda>pv. path_key parent_key (fst pv)) ` set [([k], v)]"
    by (simp add: nk path_key_Nil)
  have desc: "(\<lambda>pv. path_key parent_key (fst pv)) ` set (map (\<lambda>pv. (k # fst pv, snd pv)) ps)
      = (\<lambda>pv. path_key ?nk (fst pv)) ` set ps" for ps :: "(string list \<times> pyval) list"
    by (simp add: image_image nk)
  have first: "fst ` set ?first = (\<lambda>pv. path_key parent_key (fst pv)) ` set ?paths"
  proof (cases v)
    case (PDict sub)
    show ?thesis
    proof (cases "keys_truthy keys")
      case True
      show ?thesis
      proof (cases "in_keys k keys")
        case k: True
        with True PDict sub1 [OF True PDict k] show ?thesis
          by (simp only: desc descends_def pyval.case if_True)
      next
        case k: False
        with True PDict single show ?thesis
          by (simp only: descends_def pyval.case if_True if_False)
      qed
    next
      case False
      with PDict sub2 [OF False PDict] show ?thesis
        by (simp only: desc descends_def pyval.case if_True if_False)
    qed
  qed (use single in \<open>simp_all only: pyval.case if_cancel\<close>)
  have eq: "flatten_dict_gen keys ((k, v) # d) parent_key = ?first @ flatten_dict_gen keys d parent_key"
    by (simp add: Let_def)
  have eq2: "leaf_paths keys ((k, v) # d) = ?paths @ leaf_paths keys d"
    by simp
  show ?case
    unfolding eq eq2 by (simp only: set_append image_Un first rest)
next
  case (3 keys d parent_key)
  then show ?case by (simp only: flatten_dict.simps py_dict_keys)
qed

lemma flatten_pairs_paths:
  "set (flatten_dict_gen keys d p) \<subseteq> (\<lambda>pv. (path_key p (fst pv), snd pv)) ` set (leaf_paths keys d)"
  "set (flatten_dict keys d p) \<subseteq> (\<lambda>pv. (path_key p (fst pv), snd pv)) ` set (leaf_paths keys d)"
proof (induction keys d p and keys d p rule: flatten_dict_gen_flatten_dict.induct)
  case (1 keys parent_key)
  then show ?case by simp
next
  case (2 keys k v d parent_key)
  let ?nk = "if parent_key \<noteq> [] then py_lower parent_key @ py_capitalize k else k"
  let ?first = "if keys_truthy keys then
         (case v of PDict sub \<Rightarrow> if in_keys k keys then flatten_dict keys sub ?nk else [(?nk, v)]
          | _ \<Rightarrow> [(?nk, v)])
       else (case v of PDict sub \<Rightarrow> flatten_dict keys sub ?nk | _ \<Rightarrow> [(?nk, v)])"
  let ?paths = "case v of
        PDict sub \<Rightarrow>
          if descends keys k then map (\<lambda>pv. (k # fst pv, snd pv)) (leaf_paths keys sub)
          else [([k], v)]
      | _ \<Rightarrow> [([k], v)]"
  let ?F = "\<lambda>q (pv :: string list \<times> pyval). (path_key q (fst pv), snd pv)"
  have nk: "path_key parent_key (k # path) = path_key ?nk path" for path
    by (simp add: path_key_Cons)
  have rest: "set (flatten_dict_gen keys d parent_key) \<subseteq> ?F parent_key ` set (leaf_paths keys d)"
    using "2.IH"(3) [OF refl] .
  have sub1: "set (flatten_dict keys sub ?nk) \<subseteq> ?F ?nk ` set (leaf_paths keys sub)"
    if "keys_truthy keys" "v = PDict sub" "in_keys k keys" for sub
    using "2.IH"(1) [OF refl that] .
  have sub2: "set (flatten_dict keys sub ?nk) \<subseteq> ?F ?nk ` set (leaf_paths keys sub)"
    if "\<not> keys_truthy keys" "v = PDict sub" for sub
    using "2.IH"(2) [OF refl that] .
  have single: "set [(?nk, v)] \<subseteq> ?F parent_key ` set [([k], v)]"
    by (simp add: nk path_key_Nil)
  have desc: "?F parent_key ` set (map (\<lambda>pv. (k # fst pv, snd pv)) ps) = ?F ?nk ` set ps"
    for ps :: "(string list \<times> pyval) list"
    by (simp add: image_image nk)
  have first: "set ?first \<subseteq> ?F parent_key ` set ?paths"
  proof (cases v)
    case (PDict sub)
    show ?thesis
    proof (cases "keys_truthy keys")
      case True
      show ?thesis
      proof (cases "in_keys k keys")
        case k: True
        with True PDict sub1 [OF True PDict k] show ?thesis
          by (simp only: desc descends_def pyval.case if_True)
      next
        case k: False
        with True PDict single show ?thesis
          by (simp only: descends_def pyval.case if_True if_False)
      qed
    next
      case False
      with PDict sub2 [OF False PDict] show ?thesis
        by (simp only: desc descends_def pyval.case if_True if_False)
    qed
  qed (use single in \<open>simp_all only: pyval.case if_cancel\<close>)
  have eq: "flatten_dict_gen keys ((k, v) # d) parent_key = ?first @ flatten_dict_gen keys d parent_key"
    by (simp add: Let_def)
  have eq2: "leaf_paths keys ((k, v) # d) = ?paths @ leaf_paths keys d"
    by simp
  from first rest show ?case
    unfolding eq eq2 by (simp only: set_append image_Un) blast
next
  case (3 keys d parent_key)
  then show ?case
    using py_dict_subset [of "flatten_dict_gen keys d parent_key"]
    unfolding flatten_dict.simps by blast
qed

text \<open>
  Claim C5, as amended. For dictionaries whose keys are ASCII strings, and at every
  depth: when the generator goes through the entries of a mapping under the accumulated
  parent key \<open>p\<close> (empty in the top-level call, otherwise the key synthesized for the
  enclosing entry), the entry with key \<open>c\<close> gets the key \<open>c\<close> if \<open>p\<close> is empty and
  \<open>p.lower() + c.capitalize()\<close> otherwise: \<open>p\<close> with every character lower-cased, followed by
  \<open>c\<close> with its first character upper-cased and all its other characters lower-cased. If
  the value of the entry is a mapping the generator descends into, the entries of that
  mapping are flattened with this key as their parent key; otherwise the value is yielded
  under this key. The pairs of each mapping are collected into a dictionary. Hence the
  keys of the result are exactly the keys this rule synthesizes along the key paths
  leading to the values that are not descended into, and every pair of the result holds
  the value at the end of such a path.
\<close>

theorem flat_dict_synthesized_key:
  assumes "list_all is_ascii p" and "ascii_keys (PDict d)"
  shows "flatten_dict_gen keys d p =
           concat (map (\<lambda>kv.
              let new_key = (if p = [] then fst kv
                             else map lower_char p
                                  @ (case fst kv of [] \<Rightarrow> []
                                     | x # xs \<Rightarrow> upper_char x # map lower_char xs))
              in (case snd kv of
                    PDict sub \<Rightarrow>
                      if descends keys (fst kv) then flatten_dict keys sub new_key
                      else [(new_key, snd kv)]
                  | _ \<Rightarrow> [(new_key, snd kv)])) d)
       \<and> flatten_dict keys d p = py_dict (flatten_dict_gen keys d p)
       \<and> flat_dict d keys = flatten_dict keys d []
       \<and> fst ` set (flatten_dict keys d p) = (\<lambda>pv. path_key p (fst pv)) ` set (leaf_paths keys d)
       \<and> set (flatten_dict keys d p)
           \<subseteq> (\<lambda>pv. (path_key p (fst pv), snd pv)) ` set (leaf_paths keys d)"
  using flatten_gen_step [of keys d p] flatten_keys_paths(2) [of keys d p]
    flatten_pairs_paths(2) [of keys d p]
  by (simp only: flatten_dict.simps flat_dict_def simp_thms)

theorem flat_dict_synthesized_key_witness:
  "list_all is_ascii [] \<and> ascii_keys (PDict example_circuit)
   \<and> flat_dict example_circuit None
     = [(''circuitCircuitid'', PStr ''imola''), (''circuitlocationLat'', PStr ''44.3439''),
        (''circuitlocationLong'', PStr ''11.7167''), (''date'', PStr ''2022-04-24'')]
   \<and> fst ` set (flat_dict example_circuit None)
     = {''circuitCircuitid'', ''circuitlocationLat'', ''circuitlocationLong'', ''date''}"
proof -
  let ?step = "\<lambda>kv :: string \<times> pyval.
              let new_key = (if ([] :: string) = [] then fst kv
                             else map lower_char []
                                  @ (case fst kv of [] \<Rightarrow> []
                                     | x # xs \<Rightarrow> upper_char x # map lower_char xs))
              in (case snd kv of
                    PDict sub \<Rightarrow>
                      if descends None (fst kv) then flatten_dict None sub new_key
                      else [(new_key, snd kv)]
                  | _ \<Rightarrow> [(new_key, snd kv)])"
  have a: "list_all is_ascii []" by simp
  have b: "ascii_keys (PDict example_circuit)" by code_simp
  note t = flat_dict_synthesized_key [OF a b, of None]
  from t have "flat_dict example_circuit None = py_dict (concat (map ?step example_circuit))"
    by (simp only:)
  also have "\<dots> = [(''circuitCircuitid'', PStr ''imola''), (''circuitlocationLat'', PStr ''44.3439''),
        (''circuitlocationLong'', PStr ''11.7167''), (''date'', PStr ''2022-04-24'')]"
    by code_simp
  finally have l: "flat_dict example_circuit None
     = [(''circuitCircuitid'', PStr ''imola''), (''circuitlocationLat'', PStr ''44.3439''),
        (''circuitlocationLong'', PStr ''11.7167''), (''date'', PStr ''2022-04-24'')]" .
  have paths: "map (\<lambda>pv. path_key [] (fst pv)) (leaf_paths None example_circuit)
      = [''circuitCircuitid'', ''circuitlocationLat'', ''circuitlocationLong'', ''date'']"
    by code_simp
  from t have e: "flat_dict example_circuit None = flatten_dict None example_circuit []"
    and k: "fst ` set (flatten_dict None example_circuit [])
      = (\<lambda>pv. path_key [] (fst pv)) ` set (leaf_paths None example_circuit)"
    by blast+
  from e k have "fst ` set (flat_dict example_circuit None)
      = set (map (\<lambda>pv. path_key [] (fst pv)) (leaf_paths None example_circuit))"
    by (simp only: set_map)
  then have s: "fst ` set (flat_dict example_circuit None)
      = {''circuitCircuitid'', ''circuitlocationLat'', ''circuitlocationLong'', ''date''}"
    unfolding paths by simp
  from a b l s show ?thesis by (simp only: simp_thms)
qed

text \<open>
  The claim as the specification words it fails on its own example: for the parent key
  \<open>FirstPractice\<close> and the child key \<open>date\<close> the flattener produces
  \<open>firstpracticeDate\<close>, whereas lower-casing only the first character of the parent key
  gives \<open>firstPracticeDate\<close>.
\<close>

theorem flat_dict_first_character_counterexample:
  "map fst (flat_dict [(''FirstPractice'', PDict [(''date'', PStr ''2022-04-08'')])] None)
     = [''firstpracticeDate'']
   \<and> spec_synthesized_key ''FirstPractice'' ''date'' = ''firstPracticeDate''
   \<and> map fst (flat_dict [(''FirstPractice'', PDict [(''date'', PStr ''2022-04-08'')])] None)
     \<noteq> [spec_synthesized_key ''FirstPractice'' ''date'']"
  by code_simp

section \<open>Properties of the URL builder\<close>




section \<open>Properties of record construction\<close>

lemma float_bound_value: "float_bound = 2 ^ 1024 - 2 ^ 970"
  unfolding float_bound_def by simp

lemma collect_map_Inr: "collect (map Inr xs) = Inr xs"
  by (induction xs) simp_all

lemma collect_Inr_D: "collect rs = Inr xs \<Longrightarrow> rs = map Inr xs"
proof (induction rs arbitrary: xs)
  case Nil
  then show ?case by simp
next
  case (Cons r rs)
  show ?case
  proof (cases r)
    case (Inl e)
    with Cons.prems show ?thesis by simp
  next
    case (Inr x)
    with Cons.prems obtain ys where ys: "collect rs = Inr ys" "xs = x # ys"
      by (auto split: sum.splits)
    from Cons.IH [OF ys(1)] ys(2) Inr show ?thesis by simp
  qed
qed

lemma collect_Inr: "collect rs = Inr xs \<longleftrightarrow> rs = map Inr xs"
  using collect_Inr_D collect_map_Inr by blast

lemma collect_Inl: "(\<exists>e. collect rs = Inl e) \<longleftrightarrow> (\<exists>r \<in> set rs. \<exists>e. r = Inl e)"
proof (induction rs)
  case Nil
  then show ?case by simp
next
  case (Cons r rs)
  then show ?case by (cases r) (auto split: sum.splits)
qed

lemma fields_distinct: "distinct (map attr_name (fields_of c))"
  by (cases c) (simp_all add: plain_def plain_none_def field_conv_def field_none_def)

lemma new_Inr:
  assumes "new c x = Inr r"
  shows "\<exists>kwargs vs. x = PDict kwargs \<and> binds c kwargs
           \<and> map (\<lambda>a. convert (attr_converter a) (argument a kwargs)) (fields_of c) = map Inr vs
           \<and> r = PObj c (zip (map attr_name (fields_of c)) vs)"
proof (cases x)
  case (PDict kwargs)
  with assms show ?thesis
    by (auto simp: new_def collect_Inr split: if_splits sum.splits)
qed (use assms in \<open>simp_all add: new_def\<close>)

lemma new_attribute:
  assumes "new c (PDict kwargs) = Inr r" and "a \<in> set (fields_of c)"
  shows "\<exists>v. convert (attr_converter a) (argument a kwargs) = Inr v
             \<and> getattr r (attr_name a) = Some v"
proof -
  from new_Inr [OF assms(1)] obtain vs where
    m: "map (\<lambda>a. convert (attr_converter a) (argument a kwargs)) (fields_of c) = map Inr vs"
    and r: "r = PObj c (zip (map attr_name (fields_of c)) vs)"
    by auto
  from m have len: "length vs = length (fields_of c)"
    by (metis length_map)
  from assms(2) obtain i where i: "i < length (fields_of c)" "fields_of c ! i = a"
    by (auto simp: in_set_conv_nth)
  from m i len have "convert (attr_converter a) (argument a kwargs) = Inr (vs ! i)"
    by (metis nth_map)
  moreover have "map_of (zip (map attr_name (fields_of c)) vs) (map attr_name (fields_of c) ! i) = Some (vs ! i)"
    using fields_distinct [of c] i(1) len by (intro map_of_zip_nth) simp_all
  then have "getattr r (attr_name a) = Some (vs ! i)"
    using r i by simp
  ultimately show ?thesis by blast
qed

section \<open>Properties of the getters' URLs\<close>

text \<open>
  Claim C2 says that a standings getter called with \<open>winners=True\<close> requests the fixed
  URL built from \<open>driverStandings\<close> (or \<open>constructorStandings\<close>) and \<open>1\<close>. The code does
  not: the unconditional second assignment to \<open>url\<close> replaces the first, so that for every
  \<open>year\<close> and \<open>race\<close> the requested URL is the year/race-based one. With the default
  arguments the request goes to \<open>.../current/driverStandings.json\<close>, not to
  \<open>.../driverStandings/1.json\<close>.
\<close>

theorem standings_winners_url_overwritten:
  "drivers_standings_url year race True = build_url [year, race, EStr ''driverStandings'']
   \<and> constructors_standings_url year race True = build_url [year, race, EStr ''constructorStandings'']
   \<and> drivers_standings_url (EStr ''current'') ENone True
       = ''https://api.jolpi.ca/ergast/f1/current/driverStandings.json?limit=1000''
   \<and> build_url [EStr ''driverStandings'', EStr ''1'']
       = ''https://api.jolpi.ca/ergast/f1/driverStandings/1.json?limit=1000''
   \<and> constructors_standings_url (EStr ''current'') ENone True
       = ''https://api.jolpi.ca/ergast/f1/current/constructorStandings.json?limit=1000''
   \<and> build_url [EStr ''constructorStandings'', EStr ''1'']
       = ''https://api.jolpi.ca/ergast/f1/constructorStandings/1.json?limit=1000''"
proof -
  have "drivers_standings_url year race True = build_url [year, race, EStr ''driverStandings'']"
    by (simp add: drivers_standings_url_def)
  moreover have "constructors_standings_url year race True = build_url [year, race, EStr ''constructorStandings'']"
    by (simp add: constructors_standings_url_def)
  moreover have "drivers_standings_url (EStr ''current'') ENone True
       = ''https://api.jolpi.ca/ergast/f1/current/driverStandings.json?limit=1000''"
    by code_simp
  moreover have "build_url [EStr ''driverStandings'', EStr ''1'']
       = ''https://api.jolpi.ca/ergast/f1/driverStandings/1.json?limit=1000''"
    by code_simp
  moreover have "constructors_standings_url (EStr ''current'') ENone True
       = ''https://api.jolpi.ca/ergast/f1/current/constructorStandings.json?limit=1000''"
    by code_simp
  moreover have "build_url [EStr ''constructorStandings'', EStr ''1'']
       = ''https://api.jolpi.ca/ergast/f1/constructorStandings/1.json?limit=1000''"
    by code_simp
  ultimately show ?thesis by blast
qed

section \<open>Properties of the records\<close>

text \<open>
  Claim C7. Construction is all or nothing, for every record class and every dictionary
  of keyword arguments: if the converter of any attribute raises on the value it is given
  (the argument, or the default), the construction raises and there is no instance; and
  whenever a construction returns, the instance has a value for every declared attribute,
  in declaration order.
\<close>

theorem construction_all_or_nothing:
  assumes "a \<in> set (fields_of c)"
    and "convert (attr_converter a) (argument a kwargs) = Inl e"
  shows "(\<exists>e'. new c (PDict kwargs) = Inl e')
       \<and> (\<forall>x r. new c x = Inr r \<longrightarrow>
            (\<exists>vs. r = PObj c (zip (map attr_name (fields_of c)) vs)
                  \<and> length vs = length (fields_of c)))"
proof
  show "\<exists>e'. new c (PDict kwargs) = Inl e'"
  proof (cases "new c (PDict kwargs)")
    case (Inl e')
    then show ?thesis by blast
  next
    case (Inr r)
    from new_attribute [OF Inr assms(1)] assms(2) show ?thesis by simp
  qed
next
  show "\<forall>x r. new c x = Inr r \<longrightarrow>
            (\<exists>vs. r = PObj c (zip (map attr_name (fields_of c)) vs)
                  \<and> length vs = length (fields_of c))"
  proof (intro allI impI)
    fix x r
    assume "new c x = Inr r"
    from new_Inr [OF this] obtain kwargs' vs where
      m: "map (\<lambda>a. convert (attr_converter a) (argument a kwargs')) (fields_of c) = map Inr vs"
      and r: "r = PObj c (zip (map attr_name (fields_of c)) vs)"
      by auto
    from m have "length vs = length (fields_of c)" by (metis length_map)
    with r show "\<exists>vs. r = PObj c (zip (map attr_name (fields_of c)) vs)
                  \<and> length vs = length (fields_of c)" by blast
  qed
qed

theorem construction_all_or_nothing_witness:
  "(\<exists>e'. new DriverDTO (PDict
      [(''driverId'', PStr ''alonso''), (''url'', PStr ''http://en.wikipedia.org/wiki/Fernando_Alonso''),
       (''givenName'', PStr ''Fernando''), (''familyName'', PStr ''Alonso''),
       (''dateOfBirth'', PStr ''1981-07-32''), (''nationality'', PStr ''Spanish'')]) = Inl e')"
proof -
  let ?kw = "[(''driverId'', PStr ''alonso''), (''url'', PStr ''http://en.wikipedia.org/wiki/Fernando_Alonso''),
       (''givenName'', PStr ''Fernando''), (''familyName'', PStr ''Alonso''),
       (''dateOfBirth'', PStr ''1981-07-32''), (''nationality'', PStr ''Spanish'')]"
  let ?a = "field_conv ''dateOfBirth'' Conv_to_date"
  have h1: "?a \<in> set (fields_of DriverDTO)" by simp
  have h2: "convert (attr_converter ?a) (argument ?a ?kw) = Inl ValueError" by code_simp
  from construction_all_or_nothing [OF h1 h2] show ?thesis by blast
qed

lemma new_mandatory_argument:
  assumes "new c (PDict kwargs) = Inr r" and "a \<in> set (fields_of c)" and "attr_default a = None"
  shows "\<exists>raw. map_of kwargs (attr_name a) = Some raw \<and> argument a kwargs = raw"
proof -
  from new_Inr [OF assms(1)] have "binds c kwargs" by auto
  with assms(2,3) have "attr_name a \<in> fst ` set kwargs"
    by (auto simp: binds_def list_all_iff)
  then obtain raw where "map_of kwargs (attr_name a) = Some raw"
    by (metis domD dom_map_of_conv_image_fst)
  then show ?thesis by (simp add: argument_def)
qed

text \<open>
  Claim C10. Whenever a \<open>DriverStandingDTO\<close> is constructed from an item, its \<open>wins\<close>
  attribute is the result of \<open>float\<close> on the item's raw \<open>wins\<close> value, hence a float;
  whenever a \<open>ConstructorStandingDTO\<close> is constructed, its \<open>wins\<close> attribute is the result
  of \<open>int\<close>, hence an integer. The raw string \<open>5\<close> gives \<open>5.0\<close> in the first case and
  \<open>5\<close> in the second.
\<close>

theorem standing_wins_coercions:
  "(\<forall>item r. new DriverStandingDTO (PDict item) = Inr r \<longrightarrow>
      (\<exists>raw w. map_of item ''wins'' = Some raw \<and> py_float raw = Inr w
               \<and> getattr r ''wins'' = Some (PFloat w)))
   \<and> (\<forall>item r. new ConstructorStandingDTO (PDict item) = Inr r \<longrightarrow>
      (\<exists>raw n. map_of item ''wins'' = Some raw \<and> py_int raw = Inr n
               \<and> getattr r ''wins'' = Some (PInt n)))
   \<and> py_float (PStr ''5'') = Inr (Finite 5)
   \<and> py_int (PStr ''5'') = Inr 5"
proof (intro conjI allI impI)
  fix item r
  assume ok: "new DriverStandingDTO (PDict item) = Inr r"
  let ?a = "field_conv ''wins'' Conv_float"
  have a: "?a \<in> set (fields_of DriverStandingDTO)" by simp
  have d: "attr_default ?a = None" by (simp add: field_conv_def)
  from new_mandatory_argument [OF ok a d] obtain raw where
    raw: "map_of item ''wins'' = Some raw" "argument ?a item = raw"
    by (auto simp: field_conv_def)
  from new_attribute [OF ok a] obtain v where
    v: "convert Conv_float (argument ?a item) = Inr v" "getattr r ''wins'' = Some v"
    by (auto simp: field_conv_def)
  from v(1) raw(2) obtain w where "py_float raw = Inr w" "v = PFloat w"
    by (auto split: sum.splits)
  with raw(1) v(2)
  show "\<exists>raw w. map_of item ''wins'' = Some raw \<and> py_float raw = Inr w
               \<and> getattr r ''wins'' = Some (PFloat w)" by blast
next
  fix item r
  assume ok: "new ConstructorStandingDTO (PDict item) = Inr r"
  let ?a = "field_conv ''wins'' Conv_int"
  have a: "?a \<in> set (fields_of ConstructorStandingDTO)" by simp
  have d: "attr_default ?a = None" by (simp add: field_conv_def)
  from new_mandatory_argument [OF ok a d] obtain raw where
    raw: "map_of item ''wins'' = Some raw" "argument ?a item = raw"
    by (auto simp: field_conv_def)
  from new_attribute [OF ok a] obtain v where
    v: "convert Conv_int (argument ?a item) = Inr v" "getattr r ''wins'' = Some v"
    by (auto simp: field_conv_def)
  from v(1) raw(2) obtain n where "py_int raw = Inr n" "v = PInt n"
    by (auto split: sum.splits)
  with raw(1) v(2)
  show "\<exists>raw n. map_of item ''wins'' = Some raw \<and> py_int raw = Inr n
               \<and> getattr r ''wins'' = Some (PInt n)" by blast
next
  show "py_float (PStr ''5'') = Inr (Finite 5)" by code_simp
next
  show "py_int (PStr ''5'') = Inr 5" by code_simp
qed


theorem standing_wins_coercions_witness:
  "(\<exists>r. new DriverStandingDTO (PDict example_driver_standing) = Inr r
        \<and> getattr r ''wins'' = Some (PFloat (Finite 5)))
   \<and> (\<exists>r. new ConstructorStandingDTO (PDict example_constructor_standing) = Inr r
        \<and> getattr r ''wins'' = Some (PInt 5))"
proof -
  have "\<not> isl (new DriverStandingDTO (PDict example_driver_standing))"
    by code_simp
  then obtain r where r: "new DriverStandingDTO (PDict example_driver_standing) = Inr r"
    by (cases "new DriverStandingDTO (PDict example_driver_standing)") simp_all
  have "\<not> isl (new ConstructorStandingDTO (PDict example_constructor_standing))"
    by code_simp
  then obtain r' where r': "new ConstructorStandingDTO (PDict example_constructor_standing) = Inr r'"
    by (cases "new ConstructorStandingDTO (PDict example_constructor_standing)") simp_all
  have m: "map_of example_driver_standing ''wins'' = Some (PStr ''5'')" by code_simp
  have m': "map_of example_constructor_standing ''wins'' = Some (PStr ''5'')" by code_simp
  from standing_wins_coercions r m have "getattr r ''wins'' = Some (PFloat (Finite 5))"
    by fastforce
  moreover from standing_wins_coercions r' m' have "getattr r' ''wins'' = Some (PInt 5)"
    by fastforce
  ultimately show ?thesis using r r' by blast
qed

section \<open>Properties of requests and getters\<close>

lemma new_instance: "new c x = Inr r \<Longrightarrow> \<exists>attrs. r = PObj c attrs"
  using new_Inr [of c x r] by blast

lemma make_request_result:
  assumes "(if cache_enabled self then cache_get net url else requests_get net url (headers self)) = Inr resp"
    and "status_code resp < 400"
    and "json resp = Inr result"
    and "getitem result ''MRData'' = Inr mrdata"
    and "getitem mrdata ''total'' = Inr tot"
    and "py_int tot = Inr n"
  shows "make_request net self url = (if n \<le> 0 then Inl WrongQueryParameters else Inr result)"
proof -
  from assms(2) have "ok resp" by (simp add: ok_def)
  with assms show ?thesis
    by (cases "cache_enabled self") (simp_all add: make_request_def bind_def)
qed

text \<open>
  Claim C1. Take a request whose transport returns a response with a status below 400
  and a JSON body that has \<open>MRData.total\<close>, and let \<open>n\<close> be the integer \<open>int\<close> makes of that
  field. Then \<open>_make_request\<close> raises \<open>WrongQueryParameters\<close> if and only if \<open>n \<le> 0\<close>, and
  returns the body when \<open>n\<close> is positive. In that case, when the body holds an array of
  items under \<open>MRData.DriverTable.Drivers\<close>, \<open>get_drivers\<close> is the construction of a
  \<open>DriverDTO\<close> from each item in array order: whenever it returns, it returns exactly as
  many records as there are items, the i-th being the \<open>DriverDTO\<close> built from the i-th
  item, and it does return whenever every item can be constructed.
\<close>

theorem make_request_total_and_get_drivers:
  assumes "(if cache_enabled self then cache_get net url else requests_get net url (headers self)) = Inr resp"
    and "status_code resp < 400"
    and "json resp = Inr result"
    and "getitem result ''MRData'' = Inr mrdata"
    and "getitem mrdata ''total'' = Inr tot"
    and "py_int tot = Inr n"
  shows "(make_request net self url = Inl WrongQueryParameters \<longleftrightarrow> n \<le> 0)
       \<and> (0 < n \<longrightarrow> make_request net self url = Inr result)
       \<and> (0 < n \<and> url = build_url [year, race, EStr ''drivers'']
            \<and> getitem mrdata ''DriverTable'' = Inr table
            \<and> getitem table ''Drivers'' = Inr (PList items)
          \<longrightarrow> get_drivers net self year race = collect (map (new DriverDTO) items)
            \<and> (\<forall>rs. get_drivers net self year race = Inr rs \<longrightarrow>
                  length rs = length items
                  \<and> (\<forall>i < length items. new DriverDTO (items ! i) = Inr (rs ! i)
                                         \<and> (\<exists>attrs. rs ! i = PObj DriverDTO attrs)))
            \<and> ((\<forall>x \<in> set items. \<exists>r. new DriverDTO x = Inr r) \<longrightarrow>
                  (\<exists>rs. get_drivers net self year race = Inr rs \<and> length rs = length items)))"
proof -
  note mr = make_request_result [OF assms]
  have p1: "make_request net self url = Inl WrongQueryParameters \<longleftrightarrow> n \<le> 0"
    by (simp add: mr)
  have p2: "0 < n \<longrightarrow> make_request net self url = Inr result"
    by (simp add: mr)
  have p3: "get_drivers net self year race = collect (map (new DriverDTO) items)
            \<and> (\<forall>rs. get_drivers net self year race = Inr rs \<longrightarrow>
                  length rs = length items
                  \<and> (\<forall>i < length items. new DriverDTO (items ! i) = Inr (rs ! i)
                                         \<and> (\<exists>attrs. rs ! i = PObj DriverDTO attrs)))
            \<and> ((\<forall>x \<in> set items. \<exists>r. new DriverDTO x = Inr r) \<longrightarrow>
                  (\<exists>rs. get_drivers net self year race = Inr rs \<and> length rs = length items))"
    if pos: "0 < n" and url: "url = build_url [year, race, EStr ''drivers'']"
      and t: "getitem mrdata ''DriverTable'' = Inr table"
      and d: "getitem table ''Drivers'' = Inr (PList items)"
  proof -
    have g: "get_drivers net self year race = collect (map (new DriverDTO) items)"
      using mr pos url t d assms(4)
      by (simp add: get_drivers_def new_each_def bind_def)
    have a: "length rs = length items
          \<and> (\<forall>i < length items. new DriverDTO (items ! i) = Inr (rs ! i)
                                 \<and> (\<exists>attrs. rs ! i = PObj DriverDTO attrs))"
      if "get_drivers net self year race = Inr rs" for rs
    proof -
      from that g have m: "map (new DriverDTO) items = map Inr rs"
        by (simp add: collect_Inr)
      then have len: "length rs = length items" by (metis length_map)
      have "new DriverDTO (items ! i) = Inr (rs ! i)" if "i < length items" for i
        using m that len by (metis nth_map)
      then show ?thesis using len new_instance by blast
    qed
    have b: "\<exists>rs. get_drivers net self year race = Inr rs \<and> length rs = length items"
      if all: "\<forall>x \<in> set items. \<exists>r. new DriverDTO x = Inr r"
    proof (cases "get_drivers net self year race")
      case (Inl e)
      with g have "collect (map (new DriverDTO) items) = Inl e" by simp
      then have "\<exists>e. collect (map (new DriverDTO) items) = Inl e" by blast
      then have "\<exists>r \<in> set (map (new DriverDTO) items). \<exists>e. r = Inl e"
        by (simp only: collect_Inl)
      then obtain x e' where "x \<in> set items" "new DriverDTO x = Inl e'" by auto
      with all show ?thesis by fastforce
    next
      case (Inr rs)
      with a show ?thesis by blast
    qed
    from g a b show ?thesis by blast
  qed
  from p1 p2 p3 show ?thesis by blast
qed

theorem make_request_total_and_get_drivers_witness:
  "make_request (example_transport (example_envelope ''0'' [])) example_client
      (build_url [EInt 2049, ENone, EStr ''drivers'']) = Inl WrongQueryParameters
   \<and> (\<exists>rs. get_drivers (example_transport (example_envelope ''2'' [example_alonso, example_driver]))
              example_client (EInt 2022) (EInt 4) = Inr rs
           \<and> length rs = 2)"
proof -
  let ?net0 = "example_transport (example_envelope ''0'' [])"
  let ?url0 = "build_url [EInt 2049, ENone, EStr ''drivers'']"
  let ?resp0 = "\<lparr>status_code = 200, json = Inr (example_envelope ''0'' [])\<rparr>"
  let ?mr0 = "PDict [(''series'', PStr ''f1''), (''limit'', PStr ''1000''), (''offset'', PStr ''0''),
         (''total'', PStr ''0''),
         (''DriverTable'', PDict [(''season'', PStr ''2022''), (''Drivers'', PList [])])]"
  have a1: "(if cache_enabled example_client then cache_get ?net0 ?url0
             else requests_get ?net0 ?url0 (headers example_client)) = Inr ?resp0"
    by (simp add: example_client_def example_transport_def)
  have a2: "status_code ?resp0 < 400" by simp
  have a3: "json ?resp0 = Inr (example_envelope ''0'' [])" by simp
  have a4: "getitem (example_envelope ''0'' []) ''MRData'' = Inr ?mr0"
    by (simp add: example_envelope_def)
  have a5: "getitem ?mr0 ''total'' = Inr (PStr ''0'')" by simp
  have a6: "py_int (PStr ''0'') = Inr 0" by code_simp
  from make_request_total_and_get_drivers [OF a1 a2 a3 a4 a5 a6]
  have w1: "make_request ?net0 example_client ?url0 = Inl WrongQueryParameters"
    by simp
  let ?items = "[example_alonso, example_driver]"
  let ?net = "example_transport (example_envelope ''2'' ?items)"
  let ?url = "build_url [EInt 2022, EInt 4, EStr ''drivers'']"
  let ?resp = "\<lparr>status_code = 200, json = Inr (example_envelope ''2'' ?items)\<rparr>"
  let ?table = "PDict [(''season'', PStr ''2022''), (''Drivers'', PList ?items)]"
  let ?mr = "PDict [(''series'', PStr ''f1''), (''limit'', PStr ''1000''), (''offset'', PStr ''0''),
         (''total'', PStr ''2''), (''DriverTable'', ?table)]"
  have b1: "(if cache_enabled example_client then cache_get ?net ?url
             else requests_get ?net ?url (headers example_client)) = Inr ?resp"
    by (simp add: example_client_def example_transport_def)
  have b2: "status_code ?resp < 400" by simp
  have b3: "json ?resp = Inr (example_envelope ''2'' ?items)" by simp
  have b4: "getitem (example_envelope ''2'' ?items) ''MRData'' = Inr ?mr"
    by (simp add: example_envelope_def)
  have b5: "getitem ?mr ''total'' = Inr (PStr ''2'')" by simp
  have b6: "py_int (PStr ''2'') = Inr 2" by code_simp
  have b7: "getitem ?mr ''DriverTable'' = Inr ?table" by simp
  have b8: "getitem ?table ''Drivers'' = Inr (PList ?items)" by simp
  have c1: "\<not> isl (new DriverDTO example_alonso)" by code_simp
  have c2: "\<not> isl (new DriverDTO example_driver)" by code_simp
  have b9: "\<forall>x \<in> set ?items. \<exists>r. new DriverDTO x = Inr r"
    using c1 c2 by (auto simp: isl_def) (metis sum.exhaust_sel)+
  have pos: "(0::int) < 2" by simp
  have len: "length ?items = 2" by simp
  from make_request_total_and_get_drivers [OF b1 b2 b3 b4 b5 b6,
      of "EInt 2022" "EInt 4" ?table ?items] pos b7 b8 b9
  have "\<exists>rs. get_drivers ?net example_client (EInt 2022) (EInt 4) = Inr rs
             \<and> length rs = length ?items"
    by blast
  then have w2: "\<exists>rs. get_drivers ?net example_client (EInt 2022) (EInt 4) = Inr rs \<and> length rs = 2"
    by (simp only: len)
  from w1 w2 show ?thesis by blast
qed

section \<open>Properties of the time coercion\<close>

lemma char_eq_code: "a = b \<longleftrightarrow> (of_char a :: int) = of_char b"
  by (simp add: of_char_eq_iff)

lemma one_simps:
  "one p [] = []"
  "one p (c # r) = (if p c then [([c], r)] else [])"
  by (simp_all add: one_def)

lemma seq_one_one:
  "seq (one p) (one q) [] = []"
  "seq (one p) (one q) [a] = []"
  "seq (one p) (one q) (a # b # r) = (if p a \<and> q b then [([a, b], r)] else [])"
  by (simp_all add: seq_def one_def)

lemma re_H_simps:
  "re_H [] = []"
  "re_H [a] = (if is_digit a then [([a], [])] else [])"
  "re_H (a # b # r) =
     (if a = CHR ''2'' \<and> in_range CHR ''0'' CHR ''3'' b then [([a, b], r)] else [])
     @ (if in_range CHR ''0'' CHR ''1'' a \<and> is_digit b then [([a, b], r)] else [])
     @ (if is_digit a then [([a], b # r)] else [])"
  by (simp_all add: re_H_def alt_def lit_def range_def digit_def seq_one_one one_simps)

lemma re_M_simps:
  "re_M [] = []"
  "re_M [a] = (if is_digit a then [([a], [])] else [])"
  "re_M (a # b # r) =
     (if in_range CHR ''0'' CHR ''5'' a \<and> is_digit b then [([a, b], r)] else [])
     @ (if is_digit a then [([a], b # r)] else [])"
  by (simp_all add: re_M_def alt_def lit_def range_def digit_def seq_one_one one_simps)

lemma re_S_simps:
  "re_S [] = []"
  "re_S [a] = (if is_digit a then [([a], [])] else [])"
  "re_S (a # b # r) =
     (if a = CHR ''6'' \<and> in_range CHR ''0'' CHR ''1'' b then [([a, b], r)] else [])
     @ (if in_range CHR ''0'' CHR ''5'' a \<and> is_digit b then [([a, b], r)] else [])
     @ (if is_digit a then [([a], b # r)] else [])"
  by (simp_all add: re_S_def alt_def lit_def range_def digit_def seq_one_one one_simps)

lemma lit_simps:
  "lit c [] = []"
  "lit c (x # r) = (if x = c then [([x], r)] else [])"
  by (simp_all add: lit_def one_def)

lemma int_of_digits_simps:
  "int_of_digits [a] = digit_val a"
  "int_of_digits [a, b] = 10 * digit_val a + digit_val b"
  by (simp_all add: int_of_digits_def)

lemma time_field_cases:
  assumes "time_field mx w"
  obtains a where "w = [a]" "is_digit a" "digit_val a \<le> mx"
  | a b where "w = [a, b]" "is_digit a" "is_digit b" "10 * digit_val a + digit_val b \<le> mx"
proof (cases w)
  case Nil
  with assms show ?thesis by (simp add: time_field_def)
next
  case (Cons a w')
  show ?thesis
  proof (cases w')
    case Nil
    with Cons assms that(1) show ?thesis
      by (simp add: time_field_def int_of_digits_simps)
  next
    case (Cons b w'')
    with \<open>w = a # w'\<close> assms have "w'' = []" by (simp add: time_field_def)
    with Cons \<open>w = a # w'\<close> assms that(2) show ?thesis
      by (simp add: time_field_def int_of_digits_simps)
  qed
qed

lemma colon_not_digit: "\<not> is_digit CHR '':''"
  by (simp add: is_digit_def)

lemma digit_not_colon: "is_digit b \<Longrightarrow> b \<noteq> CHR '':''"
  using colon_not_digit by auto

lemma digit_facts:
  "is_digit a \<longleftrightarrow> 48 \<le> (of_char a :: int) \<and> (of_char a :: int) \<le> 57"
  "digit_val a = of_char a - 48"
  "in_range lo hi a \<longleftrightarrow> (of_char lo :: int) \<le> of_char a \<and> (of_char a :: int) \<le> of_char hi"
  by (simp_all add: is_digit_def digit_val_def in_range_def Let_def)


lemma H_stage:
  assumes "time_field 23 h"
  shows "concat (map (\<lambda>(h', r1). concat (map (\<lambda>(u, r2). F h' r2) (lit CHR '':'' r1)))
           (re_H (h @ CHR '':'' # rest))) = F h rest"
  using assms
proof (cases rule: time_field_cases)
  case (1 a)
  then show ?thesis
    by (simp add: re_H_simps lit_simps colon_not_digit digit_facts)
next
  case (2 a b)
  then show ?thesis
    by (auto simp add: re_H_simps lit_simps digit_facts char_eq_code)
qed

lemma M_stage:
  assumes "time_field 59 m"
  shows "concat (map (\<lambda>(m', r1). concat (map (\<lambda>(u, r2). F m' r2) (lit CHR '':'' r1)))
           (re_M (m @ CHR '':'' # rest))) = F m rest"
  using assms
proof (cases rule: time_field_cases)
  case (1 a)
  then show ?thesis
    by (simp add: re_M_simps lit_simps colon_not_digit digit_facts)
next
  case (2 a b)
  then show ?thesis
    by (auto simp add: re_M_simps lit_simps digit_facts char_eq_code)
qed

lemma S_head:
  assumes "time_field 59 s"
  shows "\<exists>tl. re_S s = (s, []) # tl"
  using assms
proof (cases rule: time_field_cases)
  case (1 a)
  then show ?thesis by (simp add: re_S_simps)
next
  case (2 a b)
  then show ?thesis
    by (auto simp add: re_S_simps digit_facts char_eq_code)
qed

lemma match_HMS_head:
  assumes "time_field 23 h" and "time_field 59 m" and "time_field 59 s"
  shows "\<exists>tl. match_HMS (h @ CHR '':'' # m @ CHR '':'' # s) = ((h, m, s), []) # tl"
proof -
  from S_head [OF assms(3)] obtain tl where "re_S s = (s, []) # tl" by blast
  then show ?thesis
    unfolding match_HMS_def
    by (simp add: H_stage [OF assms(1)] M_stage [OF assms(2)])
qed

lemma to_time_valid:
  assumes "time_field 23 h" and "time_field 59 m" and "time_field 59 s"
  shows "to_time (h @ CHR '':'' # m @ CHR '':'' # s @ [z])
         = Inr (PTime (int_of_digits h) (int_of_digits m) (int_of_digits s))"
proof -
  have b: "butlast (h @ CHR '':'' # m @ CHR '':'' # s @ [z]) = h @ CHR '':'' # m @ CHR '':'' # s"
    by (simp add: butlast_append)
  from match_HMS_head [OF assms] obtain tl where
    "match_HMS (h @ CHR '':'' # m @ CHR '':'' # s) = ((h, m, s), []) # tl" by blast
  with assms show ?thesis
    by (simp add: to_time_def strptime_HMS_def b time_field_def)
qed

lemma re_H_sound: "(w, r) \<in> set (re_H x) \<Longrightarrow> x = w @ r \<and> time_field 23 w"
proof (cases x)
  case Nil
  then show "(w, r) \<in> set (re_H x) \<Longrightarrow> x = w @ r \<and> time_field 23 w"
    by (simp add: re_H_simps)
next
  case (Cons a x')
  then show "(w, r) \<in> set (re_H x) \<Longrightarrow> x = w @ r \<and> time_field 23 w"
    by (cases x')
       (auto simp add: re_H_simps time_field_def int_of_digits_simps digit_facts char_eq_code
             split: if_splits)
qed

lemma re_M_sound: "(w, r) \<in> set (re_M x) \<Longrightarrow> x = w @ r \<and> time_field 59 w"
proof (cases x)
  case Nil
  then show "(w, r) \<in> set (re_M x) \<Longrightarrow> x = w @ r \<and> time_field 59 w"
    by (simp add: re_M_simps)
next
  case (Cons a x')
  then show "(w, r) \<in> set (re_M x) \<Longrightarrow> x = w @ r \<and> time_field 59 w"
    by (cases x')
       (auto simp add: re_M_simps time_field_def int_of_digits_simps digit_facts char_eq_code
             split: if_splits)
qed

lemma re_S_sound: "(w, r) \<in> set (re_S x) \<Longrightarrow> x = w @ r \<and> time_field 61 w"
proof (cases x)
  case Nil
  then show "(w, r) \<in> set (re_S x) \<Longrightarrow> x = w @ r \<and> time_field 61 w"
    by (simp add: re_S_simps)
next
  case (Cons a x')
  then show "(w, r) \<in> set (re_S x) \<Longrightarrow> x = w @ r \<and> time_field 61 w"
    by (cases x')
       (auto simp add: re_S_simps time_field_def int_of_digits_simps digit_facts char_eq_code
             split: if_splits)
qed

lemma lit_sound: "(w, r) \<in> set (lit c x) \<Longrightarrow> x = c # r"
  by (cases x) (auto simp: lit_simps split: if_splits)

lemma match_HMS_sound:
  assumes "((h, m, s), r) \<in> set (match_HMS x)"
  shows "x = h @ CHR '':'' # m @ CHR '':'' # s @ r
         \<and> time_field 23 h \<and> time_field 59 m \<and> time_field 61 s"
proof -
  from assms obtain r1 u1 r2 r3 u2 r4 where
    "(h, r1) \<in> set (re_H x)" "(u1, r2) \<in> set (lit CHR '':'' r1)"
    "(m, r3) \<in> set (re_M r2)" "(u2, r4) \<in> set (lit CHR '':'' r3)"
    "(s, r) \<in> set (re_S r4)"
    unfolding match_HMS_def by auto
  then show ?thesis
    using re_H_sound [of h r1 x] lit_sound [of u1 r2 "CHR '':''" r1]
      re_M_sound [of m r3 r2] lit_sound [of u2 r4 "CHR '':''" r3] re_S_sound [of s r r4]
    by simp
qed

lemma to_time_Inr_D:
  assumes "to_time f = Inr t"
  shows "\<exists>h m s z. f = h @ CHR '':'' # m @ CHR '':'' # s @ [z]
           \<and> time_field 23 h \<and> time_field 59 m \<and> time_field 59 s"
proof -
  from assms obtain g rest tl where
    m: "match_HMS (butlast f) = (g, rest) # tl"
    by (cases "match_HMS (butlast f)") (auto simp: to_time_def strptime_HMS_def)
  obtain h mi s where g: "g = (h, mi, s)" by (cases g)
  from assms m g have rest: "rest = []" and sec: "int_of_digits s \<le> 59"
    by (auto simp: to_time_def strptime_HMS_def Let_def split: if_splits)
  from m g rest have "((h, mi, s), []) \<in> set (match_HMS (butlast f))" by simp
  from match_HMS_sound [OF this]
  have b: "butlast f = h @ CHR '':'' # mi @ CHR '':'' # s"
    and fs: "time_field 23 h" "time_field 59 mi" "time_field 61 s" by simp_all
  from fs(3) sec have s59: "time_field 59 s" by (simp add: time_field_def)
  from b have "f \<noteq> []" by auto
  then have "f = butlast f @ [last f]" by simp
  with b have "f = h @ CHR '':'' # mi @ CHR '':'' # s @ [last f]" by simp
  with fs(1,2) s59 show ?thesis by blast
qed

text \<open>
  Claim C6, as amended. \<open>to_time\<close> drops the last character of its argument without
  looking at it and parses what is left with the format \<open>%H:%M:%S\<close>. Among the ASCII
  strings it succeeds exactly on the strings \<open>H:M:S\<close> followed by one more character of
  any kind, where \<open>H\<close>, \<open>M\<close> and \<open>S\<close> are one or two decimal digits with values up to 23,
  59 and 59; the result is the UTC time of day with these values. On every other ASCII
  string it raises: in particular whenever the part before the last character does not
  match.
\<close>

theorem to_time_accepts:
  assumes "list_all is_ascii f"
  shows "((\<exists>t. to_time f = Inr t) \<longleftrightarrow>
            (\<exists>h m s z. f = h @ '':'' @ m @ '':'' @ s @ [z]
                \<and> time_field 23 h \<and> time_field 59 m \<and> time_field 59 s))
       \<and> (\<forall>h m s z. f = h @ '':'' @ m @ '':'' @ s @ [z]
                \<and> time_field 23 h \<and> time_field 59 m \<and> time_field 59 s \<longrightarrow>
              to_time f = Inr (PTime (int_of_digits h) (int_of_digits m) (int_of_digits s)))"
  using to_time_Inr_D [of f] to_time_valid by auto

theorem to_time_accepts_witness:
  "list_all is_ascii ''21:42:15Z'' \<and> to_time ''21:42:15Z'' = Inr (PTime 21 42 15)"
proof -
  have a: "list_all is_ascii ''21:42:15Z''" by code_simp
  have h: "time_field 23 ''21''" by code_simp
  have m: "time_field 59 ''42''" by code_simp
  have s: "time_field 59 ''15''" by code_simp
  have v: "int_of_digits ''21'' = 21" "int_of_digits ''42'' = 42" "int_of_digits ''15'' = 15"
    by code_simp+
  have f: "''21:42:15Z'' = ''21'' @ '':'' @ ''42'' @ '':'' @ ''15'' @ [CHR ''Z'']" by simp
  from to_time_accepts [OF a] f h m s
  have "to_time ''21:42:15Z''
        = Inr (PTime (int_of_digits ''21'') (int_of_digits ''42'') (int_of_digits ''15''))"
    by blast
  with a show ?thesis by (simp only: v)
qed

text \<open>
  The claim as worded says that \<open>to_time\<close> fails when the last character is not \<open>Z\<close>. It
  does not: \<open>21:42:15X\<close> is accepted, and \<open>21:42:15\<close>, which has no \<open>Z\<close> at all, loses its
  last digit and is accepted as 21:42:01.
\<close>

theorem to_time_trailing_character_counterexample:
  "list_all is_ascii ''21:42:15X'' \<and> last ''21:42:15X'' \<noteq> CHR ''Z''
   \<and> to_time ''21:42:15X'' = Inr (PTime 21 42 15)
   \<and> list_all is_ascii ''21:42:15'' \<and> last ''21:42:15'' \<noteq> CHR ''Z''
   \<and> to_time ''21:42:15'' = Inr (PTime 21 42 1)"
  by code_simp

section \<open>Properties of the race record\<close>

lemma py_dict_lookup:
  assumes "(k, v) \<in> set ps" and "\<forall>v'. (k, v') \<in> set ps \<longrightarrow> v' = v"
  shows "map_of (py_dict ps) k = Some v"
proof -
  from assms(1) have "k \<in> fst ` set ps" by (rule image_eqI [rotated]) simp
  then have "k \<in> fst ` set (py_dict ps)" by (simp only: py_dict_keys)
  then obtain v0 where v0: "(k, v0) \<in> set (py_dict ps)" by auto
  with py_dict_subset [of ps] have "(k, v0) \<in> set ps" by blast
  with assms(2) have "v0 = v" by blast
  with v0 have "(k, v) \<in> set (py_dict ps)" by simp
  with py_dict_distinct [of ps] show ?thesis by (rule map_of_is_SomeI)
qed

lemma of_char_lower_range:
  "65 \<le> (of_char c :: int) \<Longrightarrow> (of_char c :: int) \<le> 90 \<Longrightarrow>
   (of_char (char_of (of_char c + 32 :: int)) :: int) = of_char c + 32"
  by (simp add: of_char_of)

lemma lower_char_code:
  "(of_char (lower_char c) :: int) =
     (if 65 \<le> (of_char c :: int) \<and> (of_char c :: int) \<le> 90 then of_char c + 32 else of_char c)"
  by (simp add: lower_char_def Let_def of_char_lower_range)

lemma lower_char_idem: "lower_char (lower_char c) = lower_char c"
  by (simp add: char_eq_code lower_char_code)

lemma lower_char_not_upper:
  "\<not> (65 \<le> (of_char (lower_char c) :: int) \<and> (of_char (lower_char c) :: int) \<le> 90)"
  by (simp add: lower_char_code)

lemma flatten_keys_head:
  "p \<noteq> [] \<Longrightarrow> \<forall>kv \<in> set (flatten_dict_gen keys d p). fst kv \<noteq> [] \<and> hd (fst kv) = lower_char (hd p)"
  "p \<noteq> [] \<Longrightarrow> \<forall>kv \<in> set (flatten_dict keys d p). fst kv \<noteq> [] \<and> hd (fst kv) = lower_char (hd p)"
proof (induction keys d p and keys d p rule: flatten_dict_gen_flatten_dict.induct)
  case (1 keys parent_key)
  then show ?case by simp
next
  case (2 keys k v d parent_key)
  let ?nk = "py_lower parent_key @ py_capitalize k"
  let ?P = "\<lambda>xs. \<forall>kv \<in> set xs. fst kv \<noteq> [] \<and> hd (fst kv) = lower_char (hd parent_key)"
  from "2.prems" have nk: "?nk \<noteq> []" "hd ?nk = lower_char (hd parent_key)"
    by (simp_all add: py_lower_def hd_map)
  have nk_eq: "(if parent_key \<noteq> [] then ?nk else k) = ?nk"
    using "2.prems" by simp
  have rest: "?P (flatten_dict_gen keys d parent_key)"
    using "2.IH"(3) [OF refl "2.prems"] .
  have here: "?P [(?nk, v)]"
    using nk by simp
  have sub1: "?P (flatten_dict keys sub ?nk)"
    if "keys_truthy keys" "v = PDict sub" "in_keys k keys" for sub
  proof -
    have "\<forall>kv \<in> set (flatten_dict keys sub ?nk). fst kv \<noteq> [] \<and> hd (fst kv) = lower_char (hd ?nk)"
      using "2.IH"(1) [OF nk_eq [symmetric] that nk(1)] .
    then show ?thesis by (simp only: nk(2) lower_char_idem)
  qed
  have sub2: "?P (flatten_dict keys sub ?nk)"
    if "\<not> keys_truthy keys" "v = PDict sub" for sub
  proof -
    have "\<forall>kv \<in> set (flatten_dict keys sub ?nk). fst kv \<noteq> [] \<and> hd (fst kv) = lower_char (hd ?nk)"
      using "2.IH"(2) [OF nk_eq [symmetric] that nk(1)] .
    then show ?thesis by (simp only: nk(2) lower_char_idem)
  qed
  have eq: "flatten_dict_gen keys ((k, v) # d) parent_key =
      (if keys_truthy keys then
         (case v of PDict sub \<Rightarrow> if in_keys k keys then flatten_dict keys sub ?nk else [(?nk, v)]
          | _ \<Rightarrow> [(?nk, v)])
       else (case v of PDict sub \<Rightarrow> flatten_dict keys sub ?nk | _ \<Rightarrow> [(?nk, v)]))
      @ flatten_dict_gen keys d parent_key"
    using "2.prems" by (simp add: Let_def)
  have first: "?P (if keys_truthy keys then
         (case v of PDict sub \<Rightarrow> if in_keys k keys then flatten_dict keys sub ?nk else [(?nk, v)]
          | _ \<Rightarrow> [(?nk, v)])
       else (case v of PDict sub \<Rightarrow> flatten_dict keys sub ?nk | _ \<Rightarrow> [(?nk, v)]))"
    using here sub1 sub2 by (cases v) (simp_all del: flatten_dict_gen.simps)
  show ?case
    unfolding eq using first rest by (simp only: set_append ball_Un)
next
  case (3 keys d parent_key)
  have "\<forall>kv \<in> set (flatten_dict_gen keys d parent_key).
          fst kv \<noteq> [] \<and> hd (fst kv) = lower_char (hd parent_key)"
    using "3.IH" [OF "3.prems"] .
  then show ?case
    using py_dict_subset [of "flatten_dict_gen keys d parent_key"]
    unfolding flatten_dict.simps by blast
qed

lemma flatten_gen_top_step:
  "set (flatten_dict_gen keys ((k, v) # d) []) = entry_pairs keys (k, v) \<union> set (flatten_dict_gen keys d [])"
  by (cases v) (simp_all add: entry_pairs_def descends_def)

lemma flatten_gen_top_set:
  "set (flatten_dict_gen keys d []) = (\<Union>kv \<in> set d. entry_pairs keys kv)"
proof (induction d)
  case Nil
  then show ?case by simp
next
  case (Cons kv d)
  obtain k v where kv: "kv = (k, v)" by (cases kv)
  have "set (flatten_dict_gen keys (kv # d) []) = entry_pairs keys kv \<union> set (flatten_dict_gen keys d [])"
    unfolding kv by (rule flatten_gen_top_step)
  also have "\<dots> = entry_pairs keys kv \<union> (\<Union>kv \<in> set d. entry_pairs keys kv)"
    by (simp only: Cons.IH)
  finally show ?case by simp
qed

lemma flat_dict_lookup:
  assumes "kv \<in> set d" and "(k, v) \<in> entry_pairs keys kv"
    and "\<forall>kv' \<in> set d. \<forall>v'. (k, v') \<in> entry_pairs keys kv' \<longrightarrow> v' = v"
  shows "map_of (flat_dict d keys) k = Some v"
proof -
  have mem: "(k, v) \<in> set (flatten_dict_gen keys d [])"
    using assms(1,2) unfolding flatten_gen_top_set by blast
  have uniq: "\<forall>v'. (k, v') \<in> set (flatten_dict_gen keys d []) \<longrightarrow> v' = v"
    using assms(3) unfolding flatten_gen_top_set by blast
  show ?thesis
    unfolding flat_dict_def flatten_dict.simps
    by (rule py_dict_lookup [OF mem uniq])
qed

lemma race_keys_descends:
  "descends (Some race_keys) k \<longleftrightarrow> k \<in> set race_keys"
  by (simp add: descends_def race_keys_def)

lemma race_keys_examples:
  "''FirstPractice'' \<in> set race_keys"
  "''date'' \<notin> set race_keys"
  "''time'' \<notin> set race_keys"
  by (simp_all add: race_keys_def)

lemma first_practice_keys:
  "py_lower ''FirstPractice'' @ py_capitalize ''date'' = ''firstpracticeDate''"
  "py_lower ''FirstPractice'' @ py_capitalize ''time'' = ''firstpracticeTime''"
  by code_simp+

lemma sub_object_set:
  assumes "distinct (map fst sub)" and "set (map fst sub) = {''date'', ''time''}"
    and "map_of sub ''date'' = Some dv" and "map_of sub ''time'' = Some tv"
  shows "set sub = {(''date'', dv), (''time'', tv)}"
proof -
  have "x \<in> {(''date'', dv), (''time'', tv)}" if "x \<in> set sub" for x
  proof -
    obtain c v where x: "x = (c, v)" by (cases x)
    with that have in_sub: "(c, v) \<in> set sub" by simp
    then have "c \<in> fst ` set sub" by force
    then have "c \<in> set (map fst sub)" by simp
    with assms(2) have c: "c = ''date'' \<or> c = ''time''" by simp
    from map_of_is_SomeI [OF assms(1) in_sub] have "map_of sub c = Some v" .
    with c assms(3,4) x show ?thesis by auto
  qed
  moreover have "(''date'', dv) \<in> set sub" by (rule map_of_SomeD [OF assms(3)])
  moreover have "(''time'', tv) \<in> set sub" by (rule map_of_SomeD [OF assms(4)])
  ultimately show ?thesis by blast
qed

lemma first_practice_pairs:
  assumes "distinct (map fst sub)" and "set (map fst sub) = {''date'', ''time''}"
    and "map_of sub ''date'' = Some dv" and "map_of sub ''time'' = Some tv"
  shows "set (flatten_dict (Some race_keys) sub ''FirstPractice'')
         = {(''firstpracticeDate'', dv), (''firstpracticeTime'', tv)}"
proof -
  let ?f = "\<lambda>kv :: string \<times> pyval. (py_lower ''FirstPractice'' @ py_capitalize (fst kv), snd kv)"
  have s: "set sub = {(''date'', dv), (''time'', tv)}"
    by (rule sub_object_set [OF assms])
  have nd: "\<forall>kv \<in> set sub. \<not> (is_mapping (snd kv) \<and> descends (Some race_keys) (fst kv))"
    unfolding s by (simp add: race_keys_descends race_keys_examples)
  have gen: "flatten_dict_gen (Some race_keys) sub ''FirstPractice'' = map ?f sub"
    by (rule flatten_gen_one_level [OF _ nd]) simp
  have inj: "inj_on (\<lambda>c. py_lower ''FirstPractice'' @ py_capitalize c) (set (map fst sub))"
    unfolding assms(2) by (simp add: first_practice_keys)
  have "map fst (map ?f sub) = map (\<lambda>c. py_lower ''FirstPractice'' @ py_capitalize c) (map fst sub)"
    by simp
  with inj assms(1) have "distinct (map fst (map ?f sub))"
    by (simp only: distinct_map)
  then have "py_dict (map ?f sub) = map ?f sub" by (rule py_dict_id)
  then have "set (flatten_dict (Some race_keys) sub ''FirstPractice'') = ?f ` set sub"
    unfolding flatten_dict.simps gen by simp
  also have "\<dots> = {(''firstpracticeDate'', dv), (''firstpracticeTime'', tv)}"
    unfolding s by (simp add: first_practice_keys)
  finally show ?thesis .
qed

lemma other_race_keys_head:
  assumes "k \<in> set race_keys" and "k \<noteq> ''FirstPractice''"
  shows "k \<noteq> [] \<and> lower_char (hd k) \<noteq> CHR ''f''"
proof -
  have "lower_char CHR ''S'' \<noteq> CHR ''f''" "lower_char CHR ''T'' \<noteq> CHR ''f''"
    "lower_char CHR ''Q'' \<noteq> CHR ''f''"
    by code_simp+
  with assms show ?thesis by (auto simp: race_keys_def)
qed

lemma race_entry_other:
  assumes "fst kv \<noteq> ''FirstPractice''" and "hd k = CHR ''f''" and "k \<noteq> fst kv"
  shows "(k, v) \<notin> entry_pairs (Some race_keys) kv"
proof
  assume mem: "(k, v) \<in> entry_pairs (Some race_keys) kv"
  show False
  proof (cases "\<exists>sub. snd kv = PDict sub \<and> descends (Some race_keys) (fst kv)")
    case True
    then obtain sub where sub: "snd kv = PDict sub" and desc: "fst kv \<in> set race_keys"
      by (auto simp: race_keys_descends)
    from other_race_keys_head [OF desc assms(1)]
    have ne: "fst kv \<noteq> []" and hd: "lower_char (hd (fst kv)) \<noteq> CHR ''f''" by simp_all
    from mem sub True have "(k, v) \<in> set (flatten_dict (Some race_keys) sub (fst kv))"
      by (simp add: entry_pairs_def)
    with flatten_keys_head(2) [OF ne, of "Some race_keys" sub]
    have "hd k = lower_char (hd (fst kv))" by fastforce
    with hd assms(2) show False by simp
  next
    case False
    with mem have "(k, v) = kv"
      by (cases "snd kv") (simp_all add: entry_pairs_def)
    with assms(3) show False by auto
  qed
qed

lemma race_first_practice_lookup:
  assumes "distinct (map fst item)"
    and "map_of item ''FirstPractice'' = Some (PDict sub)"
    and "distinct (map fst sub)" and "set (map fst sub) = {''date'', ''time''}"
    and "map_of sub ''date'' = Some dv" and "map_of sub ''time'' = Some tv"
    and "''firstpracticeDate'' \<notin> set (map fst item)"
    and "''firstpracticeTime'' \<notin> set (map fst item)"
  shows "map_of (flat_dict item (Some race_keys)) ''firstpracticeDate'' = Some dv
       \<and> map_of (flat_dict item (Some race_keys)) ''firstpracticeTime'' = Some tv"
proof -
  let ?kv = "(''FirstPractice'', PDict sub)"
  have kv: "?kv \<in> set item" by (rule map_of_SomeD [OF assms(2)])
  have fp: "entry_pairs (Some race_keys) ?kv = {(''firstpracticeDate'', dv), (''firstpracticeTime'', tv)}"
    using first_practice_pairs [OF assms(3-6)]
    by (simp add: entry_pairs_def race_keys_descends race_keys_examples)
  have only: "kv' = ?kv" if "kv' \<in> set item" "fst kv' = ''FirstPractice''" for kv'
  proof -
    from that have "(''FirstPractice'', snd kv') \<in> set item" by (metis prod.collapse)
    from map_of_is_SomeI [OF assms(1) this] assms(2) have "snd kv' = PDict sub" by simp
    with that(2) show ?thesis by (metis prod.collapse)
  qed
  have uniq: "\<forall>kv' \<in> set item. \<forall>v'. (k, v') \<in> entry_pairs (Some race_keys) kv' \<longrightarrow> v' = w"
    if k: "hd k = CHR ''f''" "k \<notin> set (map fst item)"
      and w: "\<forall>v'. (k, v') \<in> entry_pairs (Some race_keys) ?kv \<longrightarrow> v' = w" for k w
  proof (intro ballI allI impI)
    fix kv' v'
    assume in_item: "kv' \<in> set item" and mem: "(k, v') \<in> entry_pairs (Some race_keys) kv'"
    show "v' = w"
    proof (cases "fst kv' = ''FirstPractice''")
      case True
      with only [OF in_item] mem w show ?thesis by blast
    next
      case False
      from in_item k(2) have "k \<noteq> fst kv'" by auto
      from race_entry_other [OF False k(1) this] mem show ?thesis by blast
    qed
  qed
  have d: "map_of (flat_dict item (Some race_keys)) ''firstpracticeDate'' = Some dv"
  proof (rule flat_dict_lookup [OF kv])
    show "(''firstpracticeDate'', dv) \<in> entry_pairs (Some race_keys) ?kv"
      unfolding fp by simp
    show "\<forall>kv' \<in> set item. \<forall>v'. (''firstpracticeDate'', v') \<in> entry_pairs (Some race_keys) kv' \<longrightarrow> v' = dv"
      by (rule uniq) (use assms(7) in \<open>simp_all add: fp\<close>)
  qed
  have t: "map_of (flat_dict item (Some race_keys)) ''firstpracticeTime'' = Some tv"
  proof (rule flat_dict_lookup [OF kv])
    show "(''firstpracticeTime'', tv) \<in> entry_pairs (Some race_keys) ?kv"
      unfolding fp by simp
    show "\<forall>kv' \<in> set item. \<forall>v'. (''firstpracticeTime'', v') \<in> entry_pairs (Some race_keys) kv' \<longrightarrow> v' = tv"
      by (rule uniq) (use assms(8) in \<open>simp_all add: fp\<close>)
  qed
  from d t show ?thesis ..
qed

lemma lower_char_ne_F: "lower_char c \<noteq> CHR ''F''"
  by (auto simp add: char_eq_code lower_char_code)

lemma optional_date_scalar:
  "convert (Conv_optional Conv_to_date) x = Inr v \<Longrightarrow> \<not> is_mapping v \<and> asdict_value v = v"
  by (cases x) (auto simp: to_date_def split: if_splits sum.splits prod.splits)

lemma optional_time_scalar:
  "convert (Conv_optional Conv_to_time) x = Inr v \<Longrightarrow> \<not> is_mapping v \<and> asdict_value v = v"
  by (cases x) (auto simp: to_time_def split: if_splits sum.splits prod.splits)

lemma to_dict_lookup:
  "getattr (PObj c attrs) n = Some v \<Longrightarrow> map_of (to_dict (PObj c attrs)) n = Some (asdict_value v)"
  by (induction attrs) (auto split: if_splits)

lemma to_dict_keys: "map fst (to_dict (PObj c attrs)) = map fst attrs"
  by simp

lemma flat_None_keys:
  assumes "k \<in> fst ` set (flat_dict d None)"
  shows "k \<in> fst ` set d
       \<or> (\<exists>n \<in> fst ` set d. n \<noteq> [] \<and> k \<noteq> [] \<and> hd k = lower_char (hd n))
       \<or> [] \<in> fst ` set d"
proof -
  from assms have "k \<in> fst ` set (flatten_dict_gen None d [])"
    by (simp add: flat_dict_def flatten_dict.simps py_dict_keys)
  then obtain v where "(k, v) \<in> set (flatten_dict_gen None d [])" by auto
  then obtain kv where kv: "kv \<in> set d" "(k, v) \<in> entry_pairs None kv"
    unfolding flatten_gen_top_set by blast
  show ?thesis
  proof (cases "\<exists>sub. snd kv = PDict sub")
    case True
    then obtain sub where sub: "snd kv = PDict sub" by blast
    with kv(2) have mem: "(k, v) \<in> set (flatten_dict None sub (fst kv))"
      by (simp add: entry_pairs_def descends_def)
    show ?thesis
    proof (cases "fst kv = []")
      case True
      with kv(1) have "[] \<in> fst ` set d" by force
      then show ?thesis by blast
    next
      case False
      from flatten_keys_head(2) [OF False, of None sub] mem
      have "k \<noteq> [] \<and> hd k = lower_char (hd (fst kv))" by fastforce
      moreover from kv(1) have "fst kv \<in> fst ` set d" by simp
      ultimately show ?thesis using False by blast
    qed
  next
    case False
    with kv(2) have "(k, v) = kv"
      by (cases "snd kv") (simp_all add: entry_pairs_def)
    with kv(1) have "k \<in> fst ` set d" by force
    then show ?thesis by blast
  qed
qed

lemma race_attr_names:
  "''FirstPractice'' \<notin> set (map attr_name (fields_of RaceDTO))"
  "[] \<notin> set (map attr_name (fields_of RaceDTO))"
  by (simp_all add: plain_def field_conv_def field_none_def)

text \<open>
  \<open>get_races\<close> constructs a record from each item of \<open>MRData.RaceTable.Races\<close>, in order.
\<close>

lemma get_races_items:
  assumes "make_request net self (build_url [year, race]) = Inr response"
    and "getitem response ''MRData'' = Inr r1"
    and "getitem r1 ''RaceTable'' = Inr r2"
    and "getitem r2 ''Races'' = Inr (PList items)"
  shows "get_races net self year race = collect (map new_race items)"
  using assms by (simp add: get_races_def bind_def)

lemma get_races_nth:
  assumes "get_races net self year race = collect (map new_race items)"
    and "get_races net self year race = Inr rs"
  shows "length rs = length items \<and> (\<forall>i < length items. new_race (items ! i) = Inr (rs ! i))"
proof -
  from assms have "collect (map new_race items) = Inr rs" by simp
  then have m: "map new_race items = map Inr rs"
    by (simp only: collect_Inr)
  then have len: "length rs = length items" by (metis length_map)
  have "new_race (items ! i) = Inr (rs ! i)" if "i < length items" for i
    using m that len by (metis nth_map)
  with len show ?thesis by blast
qed

lemma new_race_first_practice:
  assumes "distinct (map fst item)"
    and "map_of item ''FirstPractice'' = Some (PDict sub)"
    and "distinct (map fst sub)" and "set (map fst sub) = {''date'', ''time''}"
    and "map_of sub ''date'' = Some d" and "map_of sub ''time'' = Some t"
    and "''firstpracticeDate'' \<notin> set (map fst item)"
    and "''firstpracticeTime'' \<notin> set (map fst item)"
    and "new_race (PDict item) = Inr r"
  shows "\<exists>dv tv. convert (Conv_optional Conv_to_date) d = Inr dv
           \<and> convert (Conv_optional Conv_to_time) t = Inr tv
           \<and> getattr r ''firstpracticeDate'' = Some dv
           \<and> getattr r ''firstpracticeTime'' = Some tv
           \<and> map_of (to_dict r) ''firstpracticeDate'' = Some dv
           \<and> map_of (to_dict r) ''firstpracticeTime'' = Some tv
           \<and> \<not> is_mapping dv \<and> \<not> is_mapping tv
           \<and> ''FirstPractice'' \<notin> fst ` set (to_dict r)
           \<and> ''FirstPractice'' \<notin> fst ` set (to_flat_dict r)
           \<and> (\<forall>kv \<in> set (to_flat_dict r). \<not> is_mapping (snd kv))"
proof -
  let ?flat = "flat_dict item (Some race_keys)"
  from assms(9) have new: "new RaceDTO (PDict ?flat) = Inr r"
    by (simp add: new_race_def)
  from race_first_practice_lookup [OF assms(1-8)]
  have ld: "map_of ?flat ''firstpracticeDate'' = Some d"
    and lt: "map_of ?flat ''firstpracticeTime'' = Some t" by simp_all
  let ?aD = "field_none ''firstpracticeDate'' (Conv_optional Conv_to_date)"
  let ?aT = "field_none ''firstpracticeTime'' (Conv_optional Conv_to_time)"
  have "?aD \<in> set (fields_of RaceDTO)" by simp
  from new_attribute [OF new this] ld obtain dv where
    dv: "convert (Conv_optional Conv_to_date) d = Inr dv" "getattr r ''firstpracticeDate'' = Some dv"
    by (auto simp: field_none_def argument_def)
  have "?aT \<in> set (fields_of RaceDTO)" by simp
  from new_attribute [OF new this] lt obtain tv where
    tv: "convert (Conv_optional Conv_to_time) t = Inr tv" "getattr r ''firstpracticeTime'' = Some tv"
    by (auto simp: field_none_def argument_def)
  from new_Inr [OF new] obtain vs where
    m: "map (\<lambda>a. convert (attr_converter a) (argument a ?flat)) (fields_of RaceDTO) = map Inr vs"
    and r: "r = PObj RaceDTO (zip (map attr_name (fields_of RaceDTO)) vs)"
    by blast
  from m have len: "length vs = length (fields_of RaceDTO)" by (metis length_map)
  have names: "map fst (to_dict r) = map attr_name (fields_of RaceDTO)"
    unfolding r to_dict_keys using len by (simp only: map_fst_zip length_map)
  from optional_date_scalar [OF dv(1)] have sd: "\<not> is_mapping dv" "asdict_value dv = dv" by simp_all
  from optional_time_scalar [OF tv(1)] have st: "\<not> is_mapping tv" "asdict_value tv = tv" by simp_all
  have pd: "map_of (to_dict r) ''firstpracticeDate'' = Some dv"
    using to_dict_lookup [of RaceDTO _ "''firstpracticeDate''" dv] dv(2) sd(2) unfolding r by simp
  have pt: "map_of (to_dict r) ''firstpracticeTime'' = Some tv"
    using to_dict_lookup [of RaceDTO _ "''firstpracticeTime''" tv] tv(2) st(2) unfolding r by simp
  have keys: "fst ` set (to_dict r) = set (map attr_name (fields_of RaceDTO))"
    using names by (metis set_map)
  have k1: "''FirstPractice'' \<notin> fst ` set (to_dict r)"
    unfolding keys by (rule race_attr_names(1))
  have k2: "''FirstPractice'' \<notin> fst ` set (to_flat_dict r)"
  proof
    assume "''FirstPractice'' \<in> fst ` set (to_flat_dict r)"
    then have "''FirstPractice'' \<in> fst ` set (flat_dict (to_dict r) None)"
      by (simp add: to_flat_dict_def)
    from flat_None_keys [OF this] k1 race_attr_names(2) keys
    obtain n where "hd ''FirstPractice'' = lower_char (hd n)" by auto
    then show False using lower_char_ne_F [of "hd n"] by simp
  qed
  have k3: "\<forall>kv \<in> set (to_flat_dict r). \<not> is_mapping (snd kv)"
    unfolding to_flat_dict_def flat_dict_def by (rule flatten_None_values(2))
  from dv tv pd pt sd(1) st(1) k1 k2 k3 show ?thesis by blast
qed

text \<open>
  Claim C4, as amended. Take a race item, a dictionary, that holds under \<open>FirstPractice\<close>
  a sub-object with exactly the keys \<open>date\<close> and \<open>time\<close>, and that has no top-level key
  already named \<open>firstpracticeDate\<close> or \<open>firstpracticeTime\<close>. Whenever the \<open>RaceDTO\<close> of that
  item is constructed (the item flattened with the restriction list first), the
  attributes \<open>firstpracticeDate\<close> and \<open>firstpracticeTime\<close> hold the coerced date and time of
  the sub-object; the plain dictionary of the record holds the same two scalars under
  these names; and neither the plain nor the flat dictionary has a key \<open>FirstPractice\<close>,
  the flat one holding no nested mapping at all. \<open>get_races\<close> is this construction for
  each item of the envelope, in order: whenever it returns, the record at the position
  of the item is that record.
\<close>

theorem race_first_practice_flattened:
  assumes "distinct (map fst item)"
    and "map_of item ''FirstPractice'' = Some (PDict sub)"
    and "distinct (map fst sub)" and "set (map fst sub) = {''date'', ''time''}"
    and "map_of sub ''date'' = Some d" and "map_of sub ''time'' = Some t"
    and "''firstpracticeDate'' \<notin> set (map fst item)"
    and "''firstpracticeTime'' \<notin> set (map fst item)"
    and "new_race (PDict item) = Inr r"
  shows "(\<exists>dv tv. convert (Conv_optional Conv_to_date) d = Inr dv
           \<and> convert (Conv_optional Conv_to_time) t = Inr tv
           \<and> getattr r ''firstpracticeDate'' = Some dv
           \<and> getattr r ''firstpracticeTime'' = Some tv
           \<and> map_of (to_dict r) ''firstpracticeDate'' = Some dv
           \<and> map_of (to_dict r) ''firstpracticeTime'' = Some tv
           \<and> \<not> is_mapping dv \<and> \<not> is_mapping tv
           \<and> ''FirstPractice'' \<notin> fst ` set (to_dict r)
           \<and> ''FirstPractice'' \<notin> fst ` set (to_flat_dict r)
           \<and> (\<forall>kv \<in> set (to_flat_dict r). \<not> is_mapping (snd kv)))
       \<and> (\<forall>net self year race response r1 r2 items rs i.
             make_request net self (build_url [year, race]) = Inr response
             \<and> getitem response ''MRData'' = Inr r1
             \<and> getitem r1 ''RaceTable'' = Inr r2
             \<and> getitem r2 ''Races'' = Inr (PList items)
             \<and> get_races net self year race = Inr rs
             \<and> i < length items \<and> items ! i = PDict item
           \<longrightarrow> get_races net self year race = collect (map new_race items)
               \<and> length rs = length items
               \<and> rs ! i = r)"
proof -
  have g: "get_races net self year race = collect (map new_race items)
           \<and> length rs = length items \<and> rs ! i = r"
    if mr: "make_request net self (build_url [year, race]) = Inr response"
      and g1: "getitem response ''MRData'' = Inr r1"
      and g2: "getitem r1 ''RaceTable'' = Inr r2"
      and g3: "getitem r2 ''Races'' = Inr (PList items)"
      and rs: "get_races net self year race = Inr rs"
      and i: "i < length items" "items ! i = PDict item"
    for net self year race response r1 r2 items rs i
  proof -
    note c = get_races_items [OF mr g1 g2 g3]
    from get_races_nth [OF c rs] i have "length rs = length items" "new_race (PDict item) = Inr (rs ! i)"
      by auto
    with assms(9) c show ?thesis by simp
  qed
  from new_race_first_practice [OF assms] g show ?thesis by blast
qed

theorem race_first_practice_flattened_witness:
  "\<exists>rs. get_races (example_transport (example_races_envelope ''1'' [PDict example_race_item]))
            example_client (EInt 2022) (EInt 4) = Inr rs
     \<and> length rs = 1
     \<and> getattr (rs ! 0) ''firstpracticeDate'' = Some (PDate 2022 4 22)
     \<and> getattr (rs ! 0) ''firstpracticeTime'' = Some (PTime 11 30 0)
     \<and> ''FirstPractice'' \<notin> fst ` set (to_dict (rs ! 0))
     \<and> ''FirstPractice'' \<notin> fst ` set (to_flat_dict (rs ! 0))"
proof -
  let ?sub = "[(''date'', PStr ''2022-04-22''), (''time'', PStr ''11:30:00Z'')]"
  let ?items = "[PDict example_race_item]"
  let ?net = "example_transport (example_races_envelope ''1'' ?items)"
  let ?table = "PDict [(''season'', PStr ''2022''), (''round'', PStr ''4''), (''Races'', PList ?items)]"
  let ?mr = "PDict [(''series'', PStr ''f1''), (''limit'', PStr ''1000''), (''offset'', PStr ''0''),
         (''total'', PStr ''1''), (''RaceTable'', ?table)]"
  have h1: "distinct (map fst example_race_item)" by code_simp
  have h2: "map_of example_race_item ''FirstPractice'' = Some (PDict ?sub)" by code_simp
  have h3: "distinct (map fst ?sub)" by simp
  have h4: "set (map fst ?sub) = {''date'', ''time''}" by simp
  have h5: "map_of ?sub ''date'' = Some (PStr ''2022-04-22'')" by simp
  have h6: "map_of ?sub ''time'' = Some (PStr ''11:30:00Z'')" by simp
  have h7: "''firstpracticeDate'' \<notin> set (map fst example_race_item)" by code_simp
  have h8: "''firstpracticeTime'' \<notin> set (map fst example_race_item)" by code_simp
  have "\<not> isl (new_race (PDict example_race_item))" by code_simp
  then obtain r where h9: "new_race (PDict example_race_item) = Inr r"
    by (cases "new_race (PDict example_race_item)") simp_all
  have cd: "convert (Conv_optional Conv_to_date) (PStr ''2022-04-22'') = Inr (PDate 2022 4 22)"
    by code_simp
  have ct: "convert (Conv_optional Conv_to_time) (PStr ''11:30:00Z'') = Inr (PTime 11 30 0)"
    by code_simp
  have n: "py_int (PStr ''1'') = Inr 1" by code_simp
  have g1: "getitem (example_races_envelope ''1'' ?items) ''MRData'' = Inr ?mr"
    by (simp add: example_races_envelope_def)
  have a1: "(if cache_enabled example_client then cache_get ?net (build_url [EInt 2022, EInt 4])
             else requests_get ?net (build_url [EInt 2022, EInt 4]) (headers example_client))
            = Inr \<lparr>status_code = 200, json = Inr (example_races_envelope ''1'' ?items)\<rparr>"
    by (simp add: example_client_def example_transport_def)
  have a5: "getitem ?mr ''total'' = Inr (PStr ''1'')" by simp
  have g0: "make_request ?net example_client (build_url [EInt 2022, EInt 4])
            = Inr (example_races_envelope ''1'' ?items)"
    using make_request_result [OF a1 _ _ g1 a5 n] by simp
  have g2: "getitem ?mr ''RaceTable'' = Inr ?table" by simp
  have g3: "getitem ?table ''Races'' = Inr (PList ?items)" by simp
  have "\<not> isl (get_races ?net example_client (EInt 2022) (EInt 4))" by code_simp
  then obtain rs where g4: "get_races ?net example_client (EInt 2022) (EInt 4) = Inr rs"
    by (cases "get_races ?net example_client (EInt 2022) (EInt 4)") simp_all
  have i: "0 < length ?items" "?items ! 0 = PDict example_race_item" by simp_all
  note t = race_first_practice_flattened [OF h1 h2 h3 h4 h5 h6 h7 h8 h9]
  from t g0 g1 g2 g3 g4 i have l: "length rs = length ?items" and z: "rs ! 0 = r"
    by blast+
  from t cd ct
  have "getattr r ''firstpracticeDate'' = Some (PDate 2022 4 22)
     \<and> getattr r ''firstpracticeTime'' = Some (PTime 11 30 0)
     \<and> ''FirstPractice'' \<notin> fst ` set (to_dict r)
     \<and> ''FirstPractice'' \<notin> fst ` set (to_flat_dict r)"
    by auto
  with g4 l z show ?thesis by simp
qed

text \<open>
  The claim as worded puts no condition on the other keys of the item. With a top-level
  entry \<open>firstpracticeDate\<close> after \<open>FirstPractice\<close>, the flattener yields that key twice,
  the dictionary keeps the later value, and the record holds the date of the top-level
  entry, not the coerced date of the sub-object.
\<close>

theorem race_top_level_key_counterexample:
  "map_of example_race_item_clash ''FirstPractice''
     = Some (PDict [(''date'', PStr ''2022-04-22''), (''time'', PStr ''11:30:00Z'')])
   \<and> distinct (map fst example_race_item_clash)
   \<and> convert (Conv_optional Conv_to_date) (PStr ''2022-04-22'') = Inr (PDate 2022 4 22)
   \<and> (case get_races (example_transport (example_races_envelope ''1'' [PDict example_race_item_clash]))
             example_client (EInt 2022) (EInt 4) of
        Inl e \<Rightarrow> []
      | Inr rs \<Rightarrow> map (\<lambda>r. getattr r ''firstpracticeDate'') rs) = [Some (PDate 1999 1 1)]
   \<and> (case new_race (PDict example_race_item_clash) of
        Inl e \<Rightarrow> None
      | Inr r \<Rightarrow> map_of (to_dict r) ''firstpracticeDate'') = Some (PDate 1999 1 1)
   \<and> PDate 1999 1 1 \<noteq> PDate 2022 4 22"
  by code_simp

end
